theory Spec2Isabelle
  imports Complex_Main "HOL-Library.Sublist" "HOL-Library.AList"
begin

section \<open>Python values and strings\<close>

text \<open>
  The values that the download engine hands to the program are dynamically typed:
  a dictionary entry may hold \<open>None\<close>, an integer or a float.  Python integers are
  unbounded (\<open>int\<close>); Python floats are represented by the exact rational they
  denote, so rounding of float arithmetic is not part of the model.
\<close>

datatype pyval = PyNone | PyInt int | PyFloat rat

text \<open>Truthiness of a value, as used by \<open>not x\<close> and \<open>x or y\<close>.\<close>

fun truthy :: "pyval \<Rightarrow> bool" where
  "truthy PyNone = False"
| "truthy (PyInt i) = (i \<noteq> 0)"
| "truthy (PyFloat x) = (x \<noteq> 0)"

text \<open>Decimal rendering of integers (\<open>str(n)\<close>, \<open>f"{n}"\<close>).\<close>

definition digit_char :: "nat \<Rightarrow> char" where
  "digit_char d =
     (if d = 0 then CHR ''0'' else if d = 1 then CHR ''1'' else if d = 2 then CHR ''2''
      else if d = 3 then CHR ''3'' else if d = 4 then CHR ''4'' else if d = 5 then CHR ''5''
      else if d = 6 then CHR ''6'' else if d = 7 then CHR ''7'' else if d = 8 then CHR ''8''
      else CHR ''9'')"

fun str_of_nat :: "nat \<Rightarrow> string" where
  "str_of_nat n =
     (if n < 10 then [digit_char n] else str_of_nat (n div 10) @ [digit_char (n mod 10)])"

declare str_of_nat.simps [simp del]

definition str_of_int :: "int \<Rightarrow> string" where
  "str_of_int i = (if i < 0 then ''-'' @ str_of_nat (nat (- i)) else str_of_nat (nat i))"

text \<open>The format specification \<open>02d\<close>: zero padding to width two, the sign counted.\<close>

definition fmt_02d :: "int \<Rightarrow> string" where
  "fmt_02d i =
     (let s = str_of_nat (nat \<bar>i\<bar>)
      in if i < 0 then ''-'' @ replicate (1 - length s) (CHR ''0'') @ s
         else replicate (2 - length s) (CHR ''0'') @ s)"

text \<open>
  \<open>s.replace(old, new)\<close>: every non-overlapping occurrence, scanning from the left.
\<close>

function py_replace :: "string \<Rightarrow> string \<Rightarrow> string \<Rightarrow> string" where
  "py_replace old new [] = (if old = [] then new else [])"
| "py_replace old new (c # cs) =
     (if old = [] then new @ concat (map (\<lambda>x. x # new) (c # cs))
      else if prefix old (c # cs) then new @ py_replace old new (drop (length old) (c # cs))
      else c # py_replace old new cs)"
  by pat_completeness auto
termination
  by (relation "measure (\<lambda>(old, new, s). length s)") auto

text \<open>\<open>s.startswith(p)\<close> is \<^const>\<open>prefix\<close> \<open>p s\<close>.\<close>

section \<open>Video metadata\<close>

record video_info =
  video_id :: string
  title :: string
  author :: string
  duration :: string
  thumbnail_url :: string

text \<open>
  Floor division and modulo of Python agree with \<open>div\<close> and \<open>mod\<close> on \<open>int\<close>; on
  floats they are \<open>floor (x / d)\<close> and \<open>x - d * floor (x / d)\<close>.  The three lines
  \<open>hours = int(seconds // 3600)\<close>, \<open>minutes = int((seconds % 3600) // 60)\<close>,
  \<open>secs = int(seconds % 60)\<close> occur in both formatters of the program.
\<close>

definition float_floordiv :: "rat \<Rightarrow> rat \<Rightarrow> int" where
  "float_floordiv x d = \<lfloor>x / d\<rfloor>"

definition float_mod :: "rat \<Rightarrow> rat \<Rightarrow> rat" where
  "float_mod x d = x - d * of_int \<lfloor>x / d\<rfloor>"

fun hours_minutes_secs :: "pyval \<Rightarrow> int \<times> int \<times> int" where
  "hours_minutes_secs (PyInt n) = (n div 3600, (n mod 3600) div 60, n mod 60)"
| "hours_minutes_secs (PyFloat x) =
     (float_floordiv x 3600, float_floordiv (float_mod x 3600) 60, \<lfloor>float_mod x 60\<rfloor>)"
| "hours_minutes_secs PyNone = (0, 0, 0)"

text \<open>\<open>VideoInfoFetcher._format_duration\<close>; \<open>not seconds\<close> covers \<open>None\<close> and zero.\<close>

definition format_duration :: "pyval \<Rightarrow> string" where
  "format_duration seconds =
     (if \<not> truthy seconds then ''0:00''
      else (case hours_minutes_secs seconds of (hours, minutes, secs) \<Rightarrow>
        if hours > 0 then str_of_int hours @ '':'' @ fmt_02d minutes @ '':'' @ fmt_02d secs
        else str_of_int minutes @ '':'' @ fmt_02d secs))"

text \<open>
  What a rendered duration is made of: a field of exactly two decimal digits, and the
  number a decimal numeral denotes.
\<close>

definition two_digits :: "nat \<Rightarrow> string" where
  "two_digits k = [digit_char (k div 10), digit_char (k mod 10)]"


definition digit_val :: "char \<Rightarrow> nat" where
  "digit_val c = of_char c - 48"

definition nat_of_digits :: "string \<Rightarrow> nat" where
  "nat_of_digits s = foldl (\<lambda>a c. 10 * a + digit_val c) 0 s"

definition is_digit :: "char \<Rightarrow> bool" where
  "is_digit c = (c \<in> set ''0123456789'')"

section \<open>Download worker\<close>

record download_worker =
  w_video_id :: string
  output_dir :: string
  format_type :: string
  quality :: string
  container_format :: string
  is_running :: bool

text \<open>\<open>DownloadWorker.__init__\<close> and \<open>DownloadWorker.stop\<close>.\<close>

definition new_worker :: "string \<Rightarrow> string \<Rightarrow> string \<Rightarrow> string \<Rightarrow> string \<Rightarrow> download_worker" where
  "new_worker vid dir ft q cf =
     \<lparr>w_video_id = vid, output_dir = dir, format_type = ft, quality = q,
      container_format = cf, is_running = True\<rparr>"

definition stop :: "download_worker \<Rightarrow> download_worker" where
  "stop w = w\<lparr>is_running := False\<rparr>"

subsection \<open>Options handed to the engine\<close>

text \<open>The format selector built at the start of \<open>DownloadWorker.run\<close>.\<close>

definition format_string :: "string \<Rightarrow> string \<Rightarrow> string" where
  "format_string ft q =
     (if ft = ''video'' then
        (if q = ''highest'' then ''bestvideo+bestaudio/best''
         else if q = ''144p'' then ''worst''
         else (let height = py_replace ''p'' '''' q
               in ''bestvideo[height<='' @ height @ '']+bestaudio/best[height<='' @ height @ '']''))
      else ''bestaudio/best'')"

datatype postprocessor =
  FFmpegExtractAudio string string
| FFmpegVideoConvertor string

definition quality_map :: "string \<Rightarrow> string option" where
  "quality_map = map_of
     [(''320 kbps'', ''320''), (''256 kbps'', ''256''), (''192 kbps'', ''192''),
      (''128 kbps'', ''128''), (''96 kbps'', ''96'')]"

record ydl_opts =
  opt_format :: string
  opt_merge_output_format :: "string option"
  opt_postprocessors :: "postprocessor list"

definition build_opts :: "download_worker \<Rightarrow> ydl_opts" where
  "build_opts w =
     (if format_type w = ''audio'' then
        \<lparr>opt_format = format_string (format_type w) (quality w),
         opt_merge_output_format = None,
         opt_postprocessors =
           [FFmpegExtractAudio (container_format w)
              (case quality_map (quality w) of Some b \<Rightarrow> b | None \<Rightarrow> ''192'')]\<rparr>
      else
        \<lparr>opt_format = format_string (format_type w) (quality w),
         opt_merge_output_format = Some (container_format w),
         opt_postprocessors =
           (if container_format w \<noteq> ''mp4'' then [FFmpegVideoConvertor (container_format w)]
            else [])\<rparr>)"

definition watch_url :: "download_worker \<Rightarrow> string" where
  "watch_url w = ''https://www.youtube.com/watch?v='' @ w_video_id w"

subsection \<open>Progress ticks\<close>

text \<open>
  The dictionary passed to a progress hook.  A field is \<open>None\<close> when the key is absent
  and \<open>Some v\<close> when it is present with value \<open>v\<close> (which may be \<open>PyNone\<close>).
\<close>

record progress_dict =
  status :: string
  total_bytes :: "pyval option"
  total_bytes_estimate :: "pyval option"
  downloaded_bytes :: "pyval option"
  speed :: "pyval option"
  eta :: "pyval option"

definition dict_get :: "pyval option \<Rightarrow> pyval \<Rightarrow> pyval" where
  "dict_get field dflt = (case field of None \<Rightarrow> dflt | Some v \<Rightarrow> v)"

definition py_or :: "pyval \<Rightarrow> pyval \<Rightarrow> pyval" where
  "py_or a b = (if truthy a then a else b)"

datatype py_exception = Exception string | TypeError string | ZeroDivisionError string

fun str_of_exception :: "py_exception \<Rightarrow> string" where
  "str_of_exception (Exception m) = m"
| "str_of_exception (TypeError m) = m"
| "str_of_exception (ZeroDivisionError m) = m"

fun type_name :: "pyval \<Rightarrow> string" where
  "type_name PyNone = ''NoneType''"
| "type_name (PyInt i) = ''int''"
| "type_name (PyFloat x) = ''float''"

fun num_of :: "pyval \<Rightarrow> rat" where
  "num_of (PyInt i) = of_int i"
| "num_of (PyFloat x) = x"
| "num_of PyNone = 0"

text \<open>A name between apostrophes, as in the messages of the interpreter.\<close>

definition quoted :: "string \<Rightarrow> string" where
  "quoted s = CHR 0x27 # s @ [CHR 0x27]"

text \<open>\<open>total > 0\<close>, which raises on \<open>None\<close>.\<close>

fun gt_zero :: "pyval \<Rightarrow> py_exception + bool" where
  "gt_zero PyNone =
     Inl (TypeError (quoted ''>'' @ '' not supported between instances of ''
            @ quoted ''NoneType'' @ '' and '' @ quoted ''int''))"
| "gt_zero (PyInt i) = Inr (i > 0)"
| "gt_zero (PyFloat x) = Inr (x > 0)"

text \<open>True division \<open>a / b\<close>; the result is a float.\<close>

definition truediv :: "pyval \<Rightarrow> pyval \<Rightarrow> py_exception + rat" where
  "truediv a b =
     (if a = PyNone \<or> b = PyNone then
        Inl (TypeError (''unsupported operand type(s) for /: '' @ quoted (type_name a)
               @ '' and '' @ quoted (type_name b)))
      else if num_of b = 0 then Inl (ZeroDivisionError ''division by zero'')
      else Inr (num_of a / num_of b))"

text \<open>Fixed-point rendering (\<open>.0f\<close>, \<open>.1f\<close>, \<open>.2f\<close>) of an exact value.\<close>

definition round_half_even :: "rat \<Rightarrow> int" where
  "round_half_even y =
     (let f = \<lfloor>y\<rfloor>; r = y - of_int f
      in if r < 1 / 2 then f else if r > 1 / 2 then f + 1 else if even f then f else f + 1)"

definition fmt_fixed :: "nat \<Rightarrow> rat \<Rightarrow> string" where
  "fmt_fixed k x =
     (let m = nat (round_half_even (\<bar>x\<bar> * 10 ^ k));
          ds = str_of_nat (m mod 10 ^ k);
          body = str_of_nat (m div 10 ^ k)
                   @ (if k = 0 then [] else ''.'' @ replicate (k - length ds) (CHR ''0'') @ ds)
      in if x < 0 then ''-'' @ body else body)"

text \<open>\<open>DownloadWorker._format_speed\<close> and \<open>DownloadWorker._format_time\<close>.\<close>

definition format_speed :: "pyval \<Rightarrow> string" where
  "format_speed sp =
     (if \<not> truthy sp then ''0 B/s''
      else if num_of sp < 1024 then fmt_fixed 0 (num_of sp) @ '' B/s''
      else if num_of sp < 1024 * 1024 then fmt_fixed 1 (num_of sp / 1024) @ '' KB/s''
      else fmt_fixed 2 (num_of sp / (1024 * 1024)) @ '' MB/s'')"

definition format_time :: "pyval \<Rightarrow> string" where
  "format_time seconds =
     (if \<not> truthy seconds \<or> num_of seconds < 0 then ''Unknown''
      else (case hours_minutes_secs seconds of (hours, minutes, secs) \<Rightarrow>
        if hours > 0 then
          str_of_int hours @ ''h '' @ str_of_int minutes @ ''m '' @ str_of_int secs @ ''s''
        else if minutes > 0 then str_of_int minutes @ ''m '' @ str_of_int secs @ ''s''
        else str_of_int secs @ ''s''))"

subsection \<open>Events and the run of a worker\<close>

text \<open>The two signals of a worker: \<open>progress\<close> and \<open>finished\<close>.\<close>

datatype worker_event =
  Progress (ev_video_id: string) (ev_percentage: rat) (ev_speed: string) (ev_eta: string)
| Finished (ev_video_id: string) (ev_success: bool) (ev_message: string)

text \<open>
  \<open>DownloadWorker._progress_hook\<close>.  \<open>Inl e\<close>: the hook raises \<open>e\<close>; \<open>Inr None\<close>: it
  returns without a signal; \<open>Inr (Some ev)\<close>: it emits \<open>ev\<close>.
\<close>

definition tick_total :: "progress_dict \<Rightarrow> pyval" where
  "tick_total d =
     py_or (dict_get (total_bytes d) PyNone) (dict_get (total_bytes_estimate d) (PyInt 0))"

definition tick_downloaded :: "progress_dict \<Rightarrow> pyval" where
  "tick_downloaded d = dict_get (downloaded_bytes d) (PyInt 0)"

definition progress_hook :: "download_worker \<Rightarrow> progress_dict \<Rightarrow> py_exception + worker_event option" where
  "progress_hook w d =
     (if \<not> is_running w then Inl (Exception ''Download cancelled'')
      else if status d = ''downloading'' then
        (case gt_zero (tick_total d) of
           Inl e \<Rightarrow> Inl e
         | Inr positive \<Rightarrow>
            (case (if positive then
                     (case truediv (tick_downloaded d) (tick_total d) of
                        Inl e \<Rightarrow> Inl e
                      | Inr r \<Rightarrow> Inr (r * 100))
                   else Inr 0) of
               Inl e \<Rightarrow> Inl e
             | Inr percentage \<Rightarrow>
                 Inr (Some (Progress (w_video_id w) percentage
                              (format_speed (dict_get (speed d) (PyInt 0)))
                              (format_time (dict_get (eta d) (PyInt 0)))))))
      else Inr None)"

text \<open>
  What happens while the engine's \<open>download\<close> call is in progress: the engine calls the
  progress hook with a tick, or another thread calls \<open>stop()\<close>.  The call ends by
  returning or by raising an error with a message.  An exception raised by the hook
  leaves the engine's call as that exception.
\<close>

datatype download_step = HookCall progress_dict | StopCalled

datatype engine_outcome = Returned | Raised string

type_synonym engine = "string \<Rightarrow> ydl_opts \<Rightarrow> download_step list \<times> engine_outcome"

fun download :: "download_worker \<Rightarrow> download_step list \<Rightarrow> engine_outcome
    \<Rightarrow> worker_event list \<times> string option" where
  "download w [] Returned = ([], None)"
| "download w [] (Raised m) = ([], Some m)"
| "download w (StopCalled # rest) oc = download (stop w) rest oc"
| "download w (HookCall d # rest) oc =
     (case progress_hook w d of
        Inl e \<Rightarrow> ([], Some (str_of_exception e))
      | Inr emitted \<Rightarrow>
          (case download w rest oc of (evs, r) \<Rightarrow>
             ((case emitted of None \<Rightarrow> [] | Some ev \<Rightarrow> [ev]) @ evs, r)))"

text \<open>
  \<open>DownloadWorker.run\<close>: the signals emitted, in order.  The flag is read once before
  the engine is called; when it is already cleared nothing is called and nothing is
  emitted.
\<close>

definition run :: "download_worker \<Rightarrow> engine \<Rightarrow> worker_event list" where
  "run w engine =
     (if is_running w then
        (case engine (watch_url w) (build_opts w) of (steps, oc) \<Rightarrow>
           (case download w steps oc of
              (evs, None) \<Rightarrow>
                evs @ [Finished (w_video_id w) True ''Download completed successfully!'']
            | (evs, Some m) \<Rightarrow>
                evs @ [Finished (w_video_id w) False (''Download failed: '' @ m)]))
      else [])"

section \<open>The main window\<close>

text \<open>
  Strings hold the UTF-8 bytes of the program's text; the two marks that start a status
  line are three bytes each.  Searching and prefix tests for ASCII patterns and for a
  whole code point give the same answer on bytes as on code points.
\<close>

definition check_mark :: string where
  "check_mark = [CHR 0xE2, CHR 0x9C, CHR 0x93]"

definition ballot_x :: string where
  "ballot_x = [CHR 0xE2, CHR 0x9C, CHR 0x97]"

text \<open>\<open>int(x)\<close> of a float: truncation towards zero.\<close>

definition py_int :: "rat \<Rightarrow> int" where
  "py_int x = (if 0 \<le> x then \<lfloor>x\<rfloor> else \<lceil>x\<rceil>)"

subsection \<open>Queue item widgets\<close>

text \<open>
  A \<open>VideoQueueItem\<close>.  \<open>item_handle\<close> is the identity of the widget object.  A progress
  bar field holds the argument of the latest \<open>setValue\<close> call, if there was one.
\<close>

record queue_item =
  item_handle :: nat
  item_video :: video_info
  checkbox_checked :: bool
  item_progress_visible :: bool
  item_progress_value :: "int option"
  status_visible :: bool
  status_text :: string

definition new_queue_item :: "nat \<Rightarrow> video_info \<Rightarrow> queue_item" where
  "new_queue_item h v =
     \<lparr>item_handle = h, item_video = v, checkbox_checked = False,
      item_progress_visible = False, item_progress_value = None,
      status_visible = False, status_text = ''''\<rparr>"

definition update_progress :: "rat \<Rightarrow> string \<Rightarrow> string \<Rightarrow> queue_item \<Rightarrow> queue_item" where
  "update_progress percentage sp et it =
     it\<lparr>item_progress_visible := True, item_progress_value := Some (py_int percentage),
        status_visible := True, status_text := ''Speed: '' @ sp @ '' | ETA: '' @ et\<rparr>"

definition mark_completed :: "queue_item \<Rightarrow> queue_item" where
  "mark_completed it =
     it\<lparr>item_progress_visible := False, status_visible := True,
        status_text := check_mark @ '' Download completed''\<rparr>"

definition mark_failed :: "string \<Rightarrow> queue_item \<Rightarrow> queue_item" where
  "mark_failed err it =
     it\<lparr>item_progress_visible := False, status_visible := True,
        status_text := ballot_x @ '' Failed: '' @ err\<rparr>"

text \<open>The widgets of \<open>video_layout\<close>, top to bottom.\<close>

datatype widget = QueueItem queue_item | SinglePanel video_info

fun lookup_item :: "nat \<Rightarrow> widget list \<Rightarrow> queue_item option" where
  "lookup_item h [] = None"
| "lookup_item h (QueueItem it # ws) = (if item_handle it = h then Some it else lookup_item h ws)"
| "lookup_item h (SinglePanel v # ws) = lookup_item h ws"

fun update_item :: "nat \<Rightarrow> (queue_item \<Rightarrow> queue_item) \<Rightarrow> widget list \<Rightarrow> widget list" where
  "update_item h f [] = []"
| "update_item h f (QueueItem it # ws) =
     (if item_handle it = h then QueueItem (f it) else QueueItem it) # update_item h f ws"
| "update_item h f (SinglePanel v # ws) = SinglePanel v # update_item h f ws"

fun remove_widget :: "nat \<Rightarrow> widget list \<Rightarrow> widget list" where
  "remove_widget h [] = []"
| "remove_widget h (QueueItem it # ws) =
     (if item_handle it = h then remove_widget h ws else QueueItem it # remove_widget h ws)"
| "remove_widget h (SinglePanel v # ws) = SinglePanel v # remove_widget h ws"

subsection \<open>State of \<open>YouTubeDownloader\<close>\<close>

text \<open>
  The attributes of the window and the state of the widgets that the handlers below
  read or that carry the result of a batch.  A dictionary is an association list in
  insertion order; \<open>queue_items\<close> maps a video id to the handle of a widget.
  \<open>dialogs\<close> lists the message boxes shown so far.  Texts of the mode label and of the
  buttons, visibility of buttons, and thumbnails are left out.
\<close>

datatype dialog = Information string string | Warning string string

record app =
  video_queue :: "video_info list"
  queue_items :: "(string \<times> nat) list"
  video_layout :: "widget list"
  next_handle :: nat
  download_workers :: "download_worker list"
  output_directory :: string
  is_queue_mode :: bool
  selected_videos :: "string set"
  viewing_single_in_queue :: bool
  active_downloads :: int
  total_downloads :: int
  download_progress :: "(string \<times> rat) list"
  video_radio_checked :: bool
  quality_combo_text :: string
  format_combo_text :: string
  download_btn_enabled :: bool
  progress_bar_visible :: bool
  progress_bar_value :: "int option"
  status_label_text :: string
  dialogs :: "dialog list"

text \<open>\<open>YouTubeDownloader.__init__\<close> with \<open>_setup_ui\<close>.\<close>

definition init_app :: "string \<Rightarrow> app" where
  "init_app downloads_dir =
     \<lparr>video_queue = [], queue_items = [], video_layout = [], next_handle = 0,
      download_workers = [], output_directory = downloads_dir, is_queue_mode = False,
      selected_videos = {}, viewing_single_in_queue = False, active_downloads = 0,
      total_downloads = 0, download_progress = [], video_radio_checked = True,
      quality_combo_text = ''highest'', format_combo_text = ''mp4'',
      download_btn_enabled = False, progress_bar_visible = False,
      progress_bar_value = None, status_label_text = '''', dialogs = []\<rparr>"

subsection \<open>Display and queue handlers\<close>

definition clear_video_display :: "app \<Rightarrow> app" where
  "clear_video_display s = s\<lparr>video_layout := [], queue_items := [], selected_videos := {}\<rparr>"

definition add_queue_item :: "video_info \<Rightarrow> app \<Rightarrow> app" where
  "add_queue_item v s =
     s\<lparr>video_layout := video_layout s @ [QueueItem (new_queue_item (next_handle s) v)],
       queue_items := AList.update (video_id v) (next_handle s) (queue_items s),
       next_handle := Suc (next_handle s)\<rparr>"

definition display_single_video :: "video_info \<Rightarrow> app \<Rightarrow> app" where
  "display_single_video v s = s\<lparr>video_layout := video_layout s @ [SinglePanel v]\<rparr>"

text \<open>
  \<open>_add_to_queue\<close>.  The function has no \<open>return\<close> statement: the value of a call is
  \<open>None\<close> on both paths, which is the first component.
\<close>

definition add_to_queue :: "video_info \<Rightarrow> app \<Rightarrow> bool option \<times> app" where
  "add_to_queue v s =
     (None,
      if video_id v \<notin> set (map video_id (video_queue s)) then
        (add_queue_item v (s\<lparr>video_queue := video_queue s @ [v]\<rparr>))\<lparr>download_btn_enabled := True\<rparr>
      else s)"

definition on_video_info_fetched :: "video_info \<Rightarrow> app \<Rightarrow> app" where
  "on_video_info_fetched v s =
     (if is_queue_mode s then snd (add_to_queue v s)
      else (display_single_video v ((clear_video_display s)\<lparr>video_queue := [v]\<rparr>))
             \<lparr>download_btn_enabled := True\<rparr>)"

definition on_playlist_fetched :: "video_info list \<Rightarrow> app \<Rightarrow> app" where
  "on_playlist_fetched videos s =
     (foldl (\<lambda>t v. add_queue_item v t)
        ((clear_video_display s)\<lparr>video_queue := videos, is_queue_mode := True,
           viewing_single_in_queue := False\<rparr>)
        videos)\<lparr>download_btn_enabled := (length videos > 0)\<rparr>"

definition remove_from_queue :: "string \<Rightarrow> app \<Rightarrow> app" where
  "remove_from_queue vid s =
     (let s1 = s\<lparr>video_queue := filter (\<lambda>v. video_id v \<noteq> vid) (video_queue s)\<rparr>;
          s2 = (case map_of (queue_items s1) vid of
                  Some h \<Rightarrow> s1\<lparr>video_layout := remove_widget h (video_layout s1),
                              queue_items := AList.delete vid (queue_items s1)\<rparr>
                | None \<Rightarrow> s1);
          s3 = s2\<lparr>selected_videos := selected_videos s2 - {vid}\<rparr>
      in if video_queue s3 = [] then
           s3\<lparr>download_btn_enabled := False, is_queue_mode := False,
              viewing_single_in_queue := False\<rparr>
         else s3)"

definition on_item_selection_changed :: "string \<Rightarrow> bool \<Rightarrow> app \<Rightarrow> app" where
  "on_item_selection_changed vid selected s =
     s\<lparr>selected_videos :=
         (if selected then insert vid (selected_videos s) else selected_videos s - {vid})\<rparr>"

definition on_queue_item_clicked :: "string \<Rightarrow> app \<Rightarrow> app" where
  "on_queue_item_clicked vid s =
     (if \<not> is_queue_mode s then s
      else (case find (\<lambda>v. video_id v = vid) (video_queue s) of
              None \<Rightarrow> s
            | Some v \<Rightarrow>
                display_single_video v
                  (clear_video_display (s\<lparr>viewing_single_in_queue := True\<rparr>))))"

definition back_to_queue :: "app \<Rightarrow> app" where
  "back_to_queue s =
     (if \<not> viewing_single_in_queue s \<or> \<not> is_queue_mode s then s
      else foldl (\<lambda>t v. add_queue_item v t)
             (clear_video_display (s\<lparr>viewing_single_in_queue := False\<rparr>)) (video_queue s))"


text \<open>
  What the user does to a displayed queue item: tick or untick its checkbox
  (\<open>VideoQueueItem._on_selection_changed\<close>), press its delete button, or click it
  (\<open>mousePressEvent\<close>).  The widget is named by its handle and has to be in the layout.
\<close>

definition checkbox_toggled :: "nat \<Rightarrow> bool \<Rightarrow> app \<Rightarrow> app" where
  "checkbox_toggled h checked s =
     (case lookup_item h (video_layout s) of
        None \<Rightarrow> s
      | Some it \<Rightarrow>
          on_item_selection_changed (video_id (item_video it)) checked
            (s\<lparr>video_layout :=
                 update_item h (\<lambda>i. i\<lparr>checkbox_checked := checked\<rparr>) (video_layout s)\<rparr>))"

definition delete_clicked :: "nat \<Rightarrow> app \<Rightarrow> app" where
  "delete_clicked h s =
     (case lookup_item h (video_layout s) of
        None \<Rightarrow> s
      | Some it \<Rightarrow> remove_from_queue (video_id (item_video it)) s)"

definition item_clicked :: "nat \<Rightarrow> app \<Rightarrow> app" where
  "item_clicked h s =
     (case lookup_item h (video_layout s) of
        None \<Rightarrow> s
      | Some it \<Rightarrow> on_queue_item_clicked (video_id (item_video it)) s)"

subsection \<open>Batch handlers\<close>

text \<open>The aggregate of \<open>_on_download_progress\<close>: \<open>sum(values) / len(dict)\<close>.\<close>

definition avg_progress :: "(string \<times> rat) list \<Rightarrow> rat" where
  "avg_progress d = sum_list (map snd d) / of_nat (length d)"

definition downloading_text :: "app \<Rightarrow> string" where
  "downloading_text s =
     ''Downloading '' @ str_of_int (active_downloads s) @ '' files... (''
       @ str_of_int (total_downloads s - active_downloads s) @ ''/''
       @ str_of_int (total_downloads s) @ '' completed)''"

text \<open>
  \<open>_start_download\<close>.  Both branches create a worker, keep it in \<open>download_workers\<close>,
  start it and enter its id into \<open>download_progress\<close>; the first branch does so for each
  queued record, the second for the first record only.
\<close>

definition start_worker :: "string \<Rightarrow> string \<Rightarrow> string \<Rightarrow> app \<Rightarrow> video_info \<Rightarrow> app" where
  "start_worker ft q cf t v =
     t\<lparr>download_workers :=
         download_workers t @ [new_worker (video_id v) (output_directory t) ft q cf],
       download_progress := AList.update (video_id v) 0 (download_progress t)\<rparr>"

definition start_download :: "app \<Rightarrow> app" where
  "start_download s =
     (case video_queue s of
        [] \<Rightarrow> s
      | video # rest \<Rightarrow>
          (let ft = (if video_radio_checked s then ''video'' else ''audio'');
               q = quality_combo_text s;
               cf = format_combo_text s
           in if is_queue_mode s \<and> \<not> viewing_single_in_queue s then
                foldl (start_worker ft q cf)
                  (s\<lparr>download_btn_enabled := False, progress_bar_visible := True,
                     progress_bar_value := Some 0,
                     active_downloads := int (length (video_queue s)),
                     total_downloads := int (length (video_queue s)),
                     download_progress := [], download_workers := [],
                     status_label_text :=
                       ''Starting '' @ str_of_int (int (length (video_queue s)))
                         @ '' downloads...''\<rparr>)
                  (video_queue s)
              else
                start_worker ft q cf
                  (s\<lparr>download_btn_enabled := False, progress_bar_visible := True,
                     progress_bar_value := Some 0, status_label_text := ''Starting download...'',
                     active_downloads := 1, total_downloads := 1,
                     download_progress := [], download_workers := []\<rparr>)
                  video))"

text \<open>\<open>_on_download_progress\<close>.\<close>

definition on_download_progress :: "string \<Rightarrow> rat \<Rightarrow> string \<Rightarrow> string \<Rightarrow> app \<Rightarrow> app" where
  "on_download_progress vid percentage sp et s =
     (let s1 = s\<lparr>download_progress := AList.update vid percentage (download_progress s)\<rparr>;
          s2 = (case map_of (queue_items s1) vid of
                  Some h \<Rightarrow>
                    s1\<lparr>video_layout :=
                         update_item h (update_progress percentage sp et) (video_layout s1)\<rparr>
                | None \<Rightarrow> s1)
      in if download_progress s2 \<noteq> [] then
           s2\<lparr>progress_bar_value := Some (py_int (avg_progress (download_progress s2))),
              status_label_text :=
                (if is_queue_mode s2 \<and> \<not> viewing_single_in_queue s2 then downloading_text s2
                 else ''Speed: '' @ sp @ '' | ETA: '' @ et)\<rparr>
         else s2)"

text \<open>
  The verdict of \<open>_on_download_finished\<close>: the status lines of the widgets registered
  in \<open>queue_items\<close>, for the queued records that have one.
\<close>

definition registered_item :: "app \<Rightarrow> string \<Rightarrow> queue_item option" where
  "registered_item s vid =
     (case map_of (queue_items s) vid of
        None \<Rightarrow> None
      | Some h \<Rightarrow> lookup_item h (video_layout s))"

definition all_success :: "app \<Rightarrow> bool" where
  "all_success s =
     list_all
       (\<lambda>v. case registered_item s (video_id v) of
               Some it \<Rightarrow> prefix check_mark (status_text it)
             | None \<Rightarrow> False)
       (filter (\<lambda>v. map_of (queue_items s) (video_id v) \<noteq> None) (video_queue s))"

text \<open>\<open>_on_download_finished\<close>.\<close>

definition on_download_finished :: "string \<Rightarrow> bool \<Rightarrow> string \<Rightarrow> app \<Rightarrow> app" where
  "on_download_finished vid success message s =
     (let s1 = s\<lparr>active_downloads := active_downloads s - 1\<rparr>;
          s2 = (case map_of (queue_items s1) vid of
                  Some h \<Rightarrow>
                    s1\<lparr>video_layout :=
                         update_item h
                           (if success then mark_completed
                            else mark_failed (py_replace ''Download failed: '' '''' message))
                           (video_layout s1)\<rparr>
                | None \<Rightarrow> s1)
      in if active_downloads s2 \<le> 0 then
           (let s3 = s2\<lparr>download_btn_enabled := True, progress_bar_visible := False\<rparr>
            in if all_success s3 then
                 (let msg = ''All '' @ str_of_int (total_downloads s3)
                              @ '' downloads completed successfully!'';
                      s4 = s3\<lparr>status_label_text := msg,
                             dialogs := dialogs s3 @ [Information ''Success'' msg]\<rparr>
                  in if is_queue_mode s4 \<and> \<not> viewing_single_in_queue s4 then
                       foldl (\<lambda>t k. remove_from_queue k t) s4 (map fst (queue_items s4))
                     else s4)
               else
                 s3\<lparr>status_label_text :=
                      ''Downloads completed with some errors. Check individual statuses.'',
                    dialogs := dialogs s3 @
                      [Warning ''Completed with Errors''
                         (str_of_int (total_downloads s3 - active_downloads s3)
                            @ '' downloads completed, but some had errors. Check the queue for details.'')]\<rparr>)
         else s2\<lparr>status_label_text := downloading_text s2\<rparr>)"

subsection \<open>Delivery of worker events\<close>

text \<open>
  The signals of the workers are queued to the window's thread and handled one at a
  time, each by the slot it is connected to.
\<close>

fun deliver :: "app \<Rightarrow> worker_event \<Rightarrow> app" where
  "deliver s (Progress vid percentage sp et) = on_download_progress vid percentage sp et s"
| "deliver s (Finished vid success message) = on_download_finished vid success message s"

text \<open>
  The signals of one worker arrive in the order of emission; nothing is fixed about
  the order between workers.  \<open>interleaving ss es\<close>: the sequence \<open>es\<close> is a merge of
  the sequences \<open>ss\<close> that keeps the order inside each of them.
\<close>

fun interleaving :: "'a list list \<Rightarrow> 'a list \<Rightarrow> bool" where
  "interleaving ss [] = list_all (\<lambda>s. s = []) ss"
| "interleaving ss (e # es) =
     list_ex (\<lambda>i. (case ss ! i of [] \<Rightarrow> False
                    | x # xs \<Rightarrow> x = e \<and> interleaving (ss[i := xs]) es))
       [0..<length ss]"

definition worker_streams :: "download_worker list \<Rightarrow> engine list \<Rightarrow> worker_event list list" where
  "worker_streams ws engines = map (\<lambda>(w, e). run w e) (zip ws engines)"

fun is_terminal :: "worker_event \<Rightarrow> bool" where
  "is_terminal (Finished vid success message) = True"
| "is_terminal (Progress vid percentage sp et) = False"

text \<open>
  The arithmetic mean of the values of a finite map, the aggregate as the
  specification words it.
\<close>

definition mean_of_values :: "(string \<rightharpoonup> rat) \<Rightarrow> rat" where
  "mean_of_values m = (\<Sum>k\<in>dom m. the (m k)) / of_nat (card (dom m))"

text \<open>
  The records a click on the download button starts a batch for: the whole queue in
  the queue view, the first record otherwise.
\<close>

definition batch_records :: "app \<Rightarrow> video_info list" where
  "batch_records s =
     (if is_queue_mode s \<and> \<not> viewing_single_in_queue s then video_queue s
      else take 1 (video_queue s))"

text \<open>The signals of one task: progress signals, then one terminal signal.\<close>

definition task_stream :: "worker_event list \<Rightarrow> bool" where
  "task_stream es =
     (es \<noteq> [] \<and> is_terminal (last es) \<and> list_all (\<lambda>e. \<not> is_terminal e) (butlast es))"

text \<open>
  The percentage of a tick as the specification words it: downloaded over total times
  100 when the total is positive, 0 otherwise.
\<close>

definition tick_percentage :: "progress_dict \<Rightarrow> rat" where
  "tick_percentage d =
     (if 0 < num_of (tick_total d) then num_of (tick_downloaded d) / num_of (tick_total d) * 100
      else 0)"

section \<open>Sample data\<close>

text \<open>Records, a worker and ticks for the concrete instances below.\<close>

definition video_a :: video_info where
  "video_a =
     \<lparr>video_id = ''a'', title = ''A'', author = ''x'', duration = ''1:05'', thumbnail_url = ''u''\<rparr>"

definition video_b :: video_info where
  "video_b =
     \<lparr>video_id = ''b'', title = ''B'', author = ''y'', duration = ''0:10'', thumbnail_url = ''v''\<rparr>"

definition worker_a :: download_worker where
  "worker_a = new_worker ''a'' ''/d'' ''video'' ''720p'' ''mp4''"

definition tick_of :: "pyval option \<Rightarrow> pyval option \<Rightarrow> pyval option \<Rightarrow> progress_dict" where
  "tick_of tb est dl =
     \<lparr>status = ''downloading'', total_bytes = tb, total_bytes_estimate = est,
      downloaded_bytes = dl, speed = None, eta = None\<rparr>"

text \<open>
  Engines: one that reports a tick of 100 bytes out of 400 and returns, one that raises
  at once, and one that reports 200 bytes downloaded against an estimate of 100.
\<close>

definition engine_ok :: engine where
  "engine_ok = (\<lambda>url opts. ([HookCall (tick_of (Some (PyInt 400)) None (Some (PyInt 100)))], Returned))"

definition engine_fail :: engine where
  "engine_fail = (\<lambda>url opts. ([], Raised ''boom''))"

definition engine_over :: engine where
  "engine_over = (\<lambda>url opts. ([HookCall (tick_of None (Some (PyInt 100)) (Some (PyInt 200)))], Returned))"

text \<open>A window with a queue of two records, one with a single record, and a delivery order.\<close>

definition queue_ab :: app where
  "queue_ab = on_playlist_fetched [video_a, video_b] (init_app ''/d'')"

definition single_a :: app where
  "single_a = on_video_info_fetched video_a (init_app ''/d'')"

definition events_ab :: "worker_event list" where
  "events_ab =
     [Progress ''a'' 25 ''0 B/s'' ''Unknown'', Finished ''b'' False ''Download failed: boom'',
      Finished ''a'' True ''Download completed successfully!'']"

text \<open>
  A third record, an engine that returns at once, and two engines that report 10 and
  90 bytes out of 100.
\<close>

definition video_c :: video_info where
  "video_c =
     \<lparr>video_id = ''c'', title = ''C'', author = ''z'', duration = ''2:00'', thumbnail_url = ''w''\<rparr>"

definition engine_done :: engine where
  "engine_done = (\<lambda>url opts. ([], Returned))"

definition engine_low :: engine where
  "engine_low = (\<lambda>url opts. ([HookCall (tick_of (Some (PyInt 100)) None (Some (PyInt 10)))], Returned))"

definition engine_high :: engine where
  "engine_high = (\<lambda>url opts. ([HookCall (tick_of (Some (PyInt 100)) None (Some (PyInt 90)))], Returned))"

text \<open>
  The download is started for the queue of two records, a third record is fetched
  while the two workers run, and the download is started again.  The signals of the
  five workers are then delivered in the order \<open>events_overlap\<close>.
\<close>

definition restarted_abc :: app where
  "restarted_abc = start_download (on_video_info_fetched video_c (start_download queue_ab))"

definition events_overlap :: "worker_event list" where
  "events_overlap =
     [Finished ''a'' True ''Download completed successfully!'',
      Finished ''b'' True ''Download completed successfully!'',
      Finished ''a'' True ''Download completed successfully!'',
      Finished ''b'' True ''Download completed successfully!'',
      Progress ''c'' 25 ''0 B/s'' ''Unknown'',
      Finished ''c'' True ''Download completed successfully!'']"



definition queue_aa :: app where
  "queue_aa = on_playlist_fetched [video_a, video_a] (init_app ''/d'')"

section \<open>Rendering of durations and the format selector\<close>

lemma str_of_nat_small: "n < 10 \<Longrightarrow> str_of_nat n = [digit_char n]"
  by (simp add: str_of_nat.simps)

lemma str_of_nat_two: "10 \<le> n \<Longrightarrow> n < 100 \<Longrightarrow> str_of_nat n = two_digits n"
  by (subst str_of_nat.simps) (simp add: two_digits_def str_of_nat_small)

lemma fmt_02d_two_digits: "0 \<le> i \<Longrightarrow> i < 100 \<Longrightarrow> fmt_02d i = two_digits (nat i)"
proof (cases "i < 10")
  case True
  assume "0 \<le> i" "i < 100"
  with True have "str_of_nat (nat \<bar>i\<bar>) = [digit_char (nat i)]"
    by (simp add: str_of_nat_small)
  with True \<open>0 \<le> i\<close> show ?thesis
    by (simp add: fmt_02d_def two_digits_def digit_char_def)
next
  case False
  assume "0 \<le> i" "i < 100"
  with False have "str_of_nat (nat \<bar>i\<bar>) = two_digits (nat i)"
    by (simp add: str_of_nat_two)
  with False \<open>0 \<le> i\<close> show ?thesis
    by (simp add: fmt_02d_def two_digits_def)
qed

lemma digit_val_digit_char: "d < 10 \<Longrightarrow> digit_val (digit_char d) = d"
  by (auto simp: digit_val_def digit_char_def)

lemma nat_of_digits_snoc: "nat_of_digits (s @ [c]) = 10 * nat_of_digits s + digit_val c"
  by (simp add: nat_of_digits_def)

lemma nat_of_digits_str_of_nat: "nat_of_digits (str_of_nat n) = n"
proof (induction n rule: str_of_nat.induct)
  case (1 n)
  show ?case
  proof (cases "n < 10")
    case True
    then show ?thesis
      by (simp add: str_of_nat_small nat_of_digits_def digit_val_digit_char)
  next
    case False
    then have "str_of_nat n = str_of_nat (n div 10) @ [digit_char (n mod 10)]"
      by (subst str_of_nat.simps) simp
    with False 1 show ?thesis
      by (simp add: nat_of_digits_snoc digit_val_digit_char)
  qed
qed

lemma is_digit_digit_char: "is_digit (digit_char d)"
  by (simp add: is_digit_def digit_char_def)

lemma digits_str_of_nat: "list_all is_digit (str_of_nat n)"
proof (induction n rule: str_of_nat.induct)
  case (1 n)
  show ?case
  proof (cases "n < 10")
    case True
    then show ?thesis by (simp add: str_of_nat_small is_digit_digit_char)
  next
    case False
    then have "str_of_nat n = str_of_nat (n div 10) @ [digit_char (n mod 10)]"
      by (subst str_of_nat.simps) simp
    with False 1 show ?thesis by (simp add: is_digit_digit_char)
  qed
qed

lemma py_replace_char: "py_replace [c] [] s = filter (\<lambda>x. x \<noteq> c) s"
  by (induction s) auto

lemma format_string_height:
  assumes "CHR ''p'' \<notin> set h" and "h \<noteq> ''144''"
  shows "format_string ''video'' (h @ ''p'') =
           ''bestvideo[height<='' @ h @ '']+bestaudio/best[height<='' @ h @ '']''"
proof -
  have "last (h @ ''p'') \<noteq> last ''highest''" by simp
  then have a: "h @ ''p'' \<noteq> ''highest''" by metis
  have "''144p'' = ''144'' @ ''p''" by simp
  with assms(2) have b: "h @ ''p'' \<noteq> ''144p''"
    by (metis append1_eq_conv)
  have c: "py_replace ''p'' [] (h @ ''p'') = h"
    using assms(1) by (auto simp: py_replace_char filter_id_conv)
  show ?thesis
    unfolding format_string_def using a b c by (simp add: Let_def)
qed

lemma format_duration_hours:
  assumes "3600 \<le> n"
  shows "format_duration (PyInt n) =
          str_of_nat (nat (n div 3600)) @ '':'' @ two_digits (nat (n mod 3600 div 60))
            @ '':'' @ two_digits (nat (n mod 60))"
proof -
  from assms have h: "0 < n div 3600"
    by (simp add: pos_imp_zdiv_pos_iff)
  have "n mod 3600 \<le> 3599"
    using pos_mod_bound [of 3600 n] by simp
  then have "n mod 3600 div 60 \<le> 3599 div 60"
    by (rule zdiv_mono1) simp
  then have m: "0 \<le> n mod 3600 div 60" "n mod 3600 div 60 < 100"
    by (simp_all add: pos_imp_zdiv_nonneg_iff)
  have s: "0 \<le> n mod 60" "n mod 60 < 100"
    using pos_mod_bound [of 60 n] by simp_all
  from assms h show ?thesis
    by (simp add: format_duration_def str_of_int_def fmt_02d_two_digits [OF m]
        fmt_02d_two_digits [OF s])
qed

lemma format_duration_minutes:
  assumes "0 < n" and "n < 3600"
  shows "format_duration (PyInt n) =
          str_of_nat (nat (n div 60)) @ '':'' @ two_digits (nat (n mod 60))"
proof -
  from assms have h: "n div 3600 = 0" "n mod 3600 = n"
    by simp_all
  have s: "0 \<le> n mod 60" "n mod 60 < 100"
    using pos_mod_bound [of 60 n] by simp_all
  have "0 \<le> n div 60" using assms by (simp add: pos_imp_zdiv_nonneg_iff)
  with assms h show ?thesis
    by (simp add: format_duration_def str_of_int_def fmt_02d_two_digits [OF s])
qed

text \<open>
  Claim C10.  The duration formatter renders an unknown duration (\<open>None\<close>) and the
  duration 0 as \<open>0:00\<close>; a duration of at least one hour as the hours in decimal, a
  colon, the minutes as two digits, a colon and the seconds as two digits; any other
  positive duration as the minutes in decimal, a colon and the seconds as two digits.
  The decimal numerals are digits only and read back as the number.  In particular 65
  gives \<open>1:05\<close> and 3661 gives \<open>1:01:01\<close>.
\<close>

theorem format_duration_rendering:
  "format_duration PyNone = ''0:00'' \<and> format_duration (PyInt 0) = ''0:00''
   \<and> (3600 \<le> n \<longrightarrow>
        format_duration (PyInt n) =
          str_of_nat (nat (n div 3600)) @ '':'' @ two_digits (nat (n mod 3600 div 60))
            @ '':'' @ two_digits (nat (n mod 60)))
   \<and> (0 < n \<and> n < 3600 \<longrightarrow>
        format_duration (PyInt n) = str_of_nat (nat (n div 60)) @ '':'' @ two_digits (nat (n mod 60)))
   \<and> nat_of_digits (str_of_nat k) = k \<and> list_all is_digit (str_of_nat k)
   \<and> format_duration (PyInt 65) = ''1:05'' \<and> format_duration (PyInt 3661) = ''1:01:01''"
proof -
  have a: "format_duration PyNone = ''0:00''" "format_duration (PyInt 0) = ''0:00''"
    by (simp_all add: format_duration_def)
  have b: "format_duration (PyInt 65) = ''1:05''" "format_duration (PyInt 3661) = ''1:01:01''"
    by (simp_all add: format_duration_def str_of_int_def fmt_02d_def str_of_nat.simps
        digit_char_def)
  show ?thesis
    using a b format_duration_hours [of n] format_duration_minutes [of n]
      nat_of_digits_str_of_nat [of k] digits_str_of_nat [of k]
    by blast
qed

theorem format_duration_rendering_witness:
  "(3600::int) \<le> 7384 \<and> format_duration (PyInt 7384) = ''2:03:04''
   \<and> (0::int) < 754 \<and> (754::int) < 3600 \<and> format_duration (PyInt 754) = ''12:34''"
  using format_duration_rendering [of 7384 0] format_duration_rendering [of 754 0]
  by (simp add: two_digits_def str_of_nat.simps digit_char_def)

text \<open>
  Claim C5.  The format selector handed to the engine is a function of kind and
  quality: for video, \<open>highest\<close> gives the merge of best video and best audio,
  \<open>144p\<close> gives \<open>worst\<close>, and any other quality \<open>Hp\<close> gives best video of height at
  most \<open>H\<close> merged with best audio (falling back to the best single stream of that
  height); any other kind gives best audio.  720p is the height-constrained selector.
\<close>

theorem format_string_cases:
  "format_string ''video'' ''highest'' = ''bestvideo+bestaudio/best''
   \<and> format_string ''video'' ''144p'' = ''worst''
   \<and> (CHR ''p'' \<notin> set h \<and> h \<noteq> ''144'' \<longrightarrow>
        format_string ''video'' (h @ ''p'') =
          ''bestvideo[height<='' @ h @ '']+bestaudio/best[height<='' @ h @ '']'')
   \<and> (ft \<noteq> ''video'' \<longrightarrow> format_string ft q = ''bestaudio/best'')
   \<and> format_string ''audio'' q = ''bestaudio/best''
   \<and> format_string ''video'' ''720p'' = ''bestvideo[height<=720]+bestaudio/best[height<=720]''
   \<and> opt_format (build_opts w) = format_string (format_type w) (quality w)"
proof -
  have a: "format_string ''video'' ''highest'' = ''bestvideo+bestaudio/best''"
    "format_string ''video'' ''144p'' = ''worst''"
    "format_string ''audio'' q = ''bestaudio/best''"
    "ft \<noteq> ''video'' \<longrightarrow> format_string ft q = ''bestaudio/best''"
    "format_string ''video'' ''720p'' = ''bestvideo[height<=720]+bestaudio/best[height<=720]''"
    by (simp_all add: format_string_def)
  have b: "opt_format (build_opts w) = format_string (format_type w) (quality w)"
    by (simp add: build_opts_def)
  show ?thesis
    using a b format_string_height [of h] by blast
qed

theorem format_string_cases_witness:
  "CHR ''p'' \<notin> set ''1080'' \<and> ''1080'' \<noteq> ''144''
   \<and> format_string ''video'' ''1080p'' = ''bestvideo[height<=1080]+bestaudio/best[height<=1080]''
   \<and> ''audio'' \<noteq> ''video'' \<and> format_string ''audio'' ''320 kbps'' = ''bestaudio/best''"
  using format_string_cases [of "''1080''" "''audio''" "''320 kbps''"]
  by simp

section \<open>The run of a worker\<close>

lemma progress_hook_emits_progress:
  assumes "progress_hook w d = Inr (Some ev)"
  shows "\<not> is_terminal ev \<and> ev_video_id ev = w_video_id w"
  using assms
  by (auto simp: progress_hook_def split: if_splits sum.splits)

lemma download_video_id [simp]: "w_video_id (stop w) = w_video_id w"
  by (simp add: stop_def)

lemma download_emits_progress:
  "list_all (\<lambda>e. \<not> is_terminal e \<and> ev_video_id e = w_video_id w) (fst (download w steps oc))"
proof (induction w steps oc rule: download.induct)
  case (4 w d rest oc)
  show ?case
  proof (cases "progress_hook w d")
    case (Inl e)
    then show ?thesis by simp
  next
    case (Inr emitted)
    with 4 have ih: "list_all (\<lambda>e. \<not> is_terminal e \<and> ev_video_id e = w_video_id w)
        (fst (download w rest oc))"
      by simp
    show ?thesis
    proof (cases emitted)
      case None
      with Inr ih show ?thesis by (simp split: prod.splits)
    next
      case (Some ev)
      with Inr progress_hook_emits_progress [of w d ev] ih show ?thesis
        by (auto split: prod.splits)
    qed
  qed
qed simp_all

lemma run_task_stream:
  assumes "is_running w"
  shows "task_stream (run w engine) \<and> list_all (\<lambda>e. ev_video_id e = w_video_id w) (run w engine)"
proof -
  obtain steps oc where e: "engine (watch_url w) (build_opts w) = (steps, oc)"
    by (cases "engine (watch_url w) (build_opts w)")
  obtain evs r where d: "download w steps oc = (evs, r)"
    by (cases "download w steps oc")
  from download_emits_progress [of w steps oc] d
  have p: "list_all (\<lambda>e. \<not> is_terminal e \<and> ev_video_id e = w_video_id w) evs"
    by simp
  then have "list_all (\<lambda>e. \<not> is_terminal e) evs" "list_all (\<lambda>e. ev_video_id e = w_video_id w) evs"
    by (simp_all add: list_all_iff)
  with assms e d show ?thesis
    by (cases r) (simp_all add: run_def task_stream_def)
qed

text \<open>
  Claim C6.  A run emits exactly one terminal signal.  This fails when \<open>stop()\<close> is
  called before the run reads the flag: the run then emits nothing at all, for every
  engine.  When \<open>stop()\<close> arrives during the download, the next tick raises and the run
  ends with the one terminal signal that carries the cancellation message.
\<close>

theorem run_after_stop_is_silent:
  "run (stop w) engine = []
   \<and> length (filter is_terminal (run (stop w) engine)) = 0
   \<and> run worker_a (\<lambda>url opts. ([StopCalled, HookCall (tick_of None None None)], Returned)) =
       [Finished ''a'' False ''Download failed: Download cancelled'']"
  by (simp add: run_def stop_def worker_a_def new_worker_def progress_hook_def)

section \<open>The percentage of a tick\<close>

lemma gt_zero_num: "gt_zero v = Inr b \<Longrightarrow> b = (0 < num_of v) \<and> v \<noteq> PyNone"
  by (cases v) auto

lemma gt_zero_not_none: "v \<noteq> PyNone \<Longrightarrow> gt_zero v = Inr (0 < num_of v)"
  by (cases v) auto

lemma progress_hook_reported:
  assumes "progress_hook w d = Inr (Some ev)"
  shows "ev_percentage ev = tick_percentage d"
  using assms
  by (auto simp: progress_hook_def tick_percentage_def truediv_def
      split: if_splits sum.splits dest!: gt_zero_num)

lemma progress_hook_reports:
  assumes "is_running w" and "status d = ''downloading''" and "tick_total d \<noteq> PyNone"
    and "0 < num_of (tick_total d) \<longrightarrow> tick_downloaded d \<noteq> PyNone"
  shows "\<exists>ev. progress_hook w d = Inr (Some ev)"
  using assms
  by (auto simp: progress_hook_def truediv_def gt_zero_not_none)

lemma tick_percentage_bounds:
  assumes "0 \<le> num_of (tick_downloaded d)" and "num_of (tick_downloaded d) \<le> num_of (tick_total d)"
  shows "0 \<le> tick_percentage d \<and> tick_percentage d \<le> 100"
  using assms by (auto simp: tick_percentage_def divide_le_eq)

text \<open>
  Claim C4, as amended.  Whenever the hook reports a percentage, the worker is running,
  the tick has status \<open>downloading\<close> and the percentage is downloaded over total times
  100 when the total is positive and 0 otherwise.  The hook does report when the worker
  is running, the status is \<open>downloading\<close> and the total (and, for a positive total, the
  downloaded count) is a number.  The percentage lies between 0 and 100 when the
  downloaded count lies between 0 and the total; nothing clamps it otherwise.
\<close>

theorem progress_hook_percentage:
  "(progress_hook w d = Inr (Some ev) \<longrightarrow>
      is_running w \<and> status d = ''downloading'' \<and> ev_percentage ev = tick_percentage d)
   \<and> (is_running w \<and> status d = ''downloading'' \<and> tick_total d \<noteq> PyNone
        \<and> (0 < num_of (tick_total d) \<longrightarrow> tick_downloaded d \<noteq> PyNone)
      \<longrightarrow> (\<exists>e. progress_hook w d = Inr (Some e)))
   \<and> (0 \<le> num_of (tick_downloaded d) \<and> num_of (tick_downloaded d) \<le> num_of (tick_total d)
      \<longrightarrow> 0 \<le> tick_percentage d \<and> tick_percentage d \<le> 100)"
proof -
  have "progress_hook w d = Inr (Some ev) \<longrightarrow> is_running w \<and> status d = ''downloading''"
    by (auto simp: progress_hook_def split: if_splits)
  then show ?thesis
    using progress_hook_reported [of w d ev] progress_hook_reports [of w d]
      tick_percentage_bounds [of d]
    by blast
qed

theorem progress_hook_percentage_witness:
  "progress_hook worker_a (tick_of (Some (PyInt 400)) None (Some (PyInt 100))) =
     Inr (Some (Progress ''a'' 25 ''0 B/s'' ''Unknown''))
   \<and> ev_percentage (Progress ''a'' 25 ''0 B/s'' ''Unknown'') =
       tick_percentage (tick_of (Some (PyInt 400)) None (Some (PyInt 100)))
   \<and> 0 \<le> tick_percentage (tick_of (Some (PyInt 400)) None (Some (PyInt 100)))
   \<and> tick_percentage (tick_of (Some (PyInt 400)) None (Some (PyInt 100))) \<le> 100"
proof -
  have h: "progress_hook worker_a (tick_of (Some (PyInt 400)) None (Some (PyInt 100))) =
     Inr (Some (Progress ''a'' 25 ''0 B/s'' ''Unknown''))"
    by (simp add: progress_hook_def worker_a_def new_worker_def tick_of_def tick_total_def
        tick_downloaded_def dict_get_def py_or_def truediv_def format_speed_def format_time_def)
  have b: "0 \<le> num_of (tick_downloaded (tick_of (Some (PyInt 400)) None (Some (PyInt 100))))"
    "num_of (tick_downloaded (tick_of (Some (PyInt 400)) None (Some (PyInt 100))))
       \<le> num_of (tick_total (tick_of (Some (PyInt 400)) None (Some (PyInt 100))))"
    by (simp_all add: tick_of_def tick_total_def tick_downloaded_def dict_get_def py_or_def)
  from h b progress_hook_percentage [of worker_a "tick_of (Some (PyInt 400)) None (Some (PyInt 100))"
      "Progress ''a'' 25 ''0 B/s'' ''Unknown''"]
  show ?thesis by blast
qed

text \<open>
  The claim as stated fails: with 200 bytes downloaded of an estimated 100 the hook
  reports 200 percent, and a tick whose estimate is present but \<open>None\<close> makes the hook
  raise instead of reporting 0.
\<close>

theorem progress_hook_not_clamped:
  "progress_hook worker_a (tick_of None (Some (PyInt 100)) (Some (PyInt 200))) =
     Inr (Some (Progress ''a'' 200 ''0 B/s'' ''Unknown''))
   \<and> \<not> ev_percentage (Progress ''a'' 200 ''0 B/s'' ''Unknown'') \<le> 100
   \<and> isl (progress_hook worker_a (tick_of None (Some PyNone) (Some (PyInt 200))))"
  by (simp add: progress_hook_def worker_a_def new_worker_def tick_of_def tick_total_def
      tick_downloaded_def dict_get_def py_or_def truediv_def format_speed_def format_time_def)

section \<open>Fields that the handlers leave alone\<close>

lemma remove_from_queue_batch_fields:
  "active_downloads (remove_from_queue k t) = active_downloads t"
  "total_downloads (remove_from_queue k t) = total_downloads t"
  "download_progress (remove_from_queue k t) = download_progress t"
  "dialogs (remove_from_queue k t) = dialogs t"
  by (simp_all add: remove_from_queue_def Let_def split: option.splits)

lemma remove_all_batch_fields:
  "active_downloads (foldl (\<lambda>t k. remove_from_queue k t) t ks) = active_downloads t"
  "total_downloads (foldl (\<lambda>t k. remove_from_queue k t) t ks) = total_downloads t"
  "download_progress (foldl (\<lambda>t k. remove_from_queue k t) t ks) = download_progress t"
  "dialogs (foldl (\<lambda>t k. remove_from_queue k t) t ks) = dialogs t"
  by (induction ks arbitrary: t) (simp_all add: remove_from_queue_batch_fields)

lemma on_download_progress_fields:
  "active_downloads (on_download_progress vid p sp et t) = active_downloads t"
  "total_downloads (on_download_progress vid p sp et t) = total_downloads t"
  "dialogs (on_download_progress vid p sp et t) = dialogs t"
  "download_progress (on_download_progress vid p sp et t) =
     AList.update vid p (download_progress t)"
  by (simp_all add: on_download_progress_def Let_def split: option.splits)

lemma on_download_finished_fields:
  "active_downloads (on_download_finished vid ok msg t) = active_downloads t - 1"
  "total_downloads (on_download_finished vid ok msg t) = total_downloads t"
  "download_progress (on_download_finished vid ok msg t) = download_progress t"
  by (simp_all add: on_download_finished_def Let_def remove_all_batch_fields
      split: option.splits)

lemma on_download_finished_dialogs:
  "1 < active_downloads t \<Longrightarrow> dialogs (on_download_finished vid ok msg t) = dialogs t"
  "active_downloads t \<le> 1 \<Longrightarrow>
     length (dialogs (on_download_finished vid ok msg t)) = Suc (length (dialogs t))"
  by (simp_all add: on_download_finished_def Let_def remove_all_batch_fields
      split: option.splits)

lemma deliver_active:
  "active_downloads (deliver t e) = active_downloads t - (if is_terminal e then 1 else 0)"
  by (cases e) (simp_all add: on_download_progress_fields on_download_finished_fields)

lemma foldl_deliver_active:
  "active_downloads (foldl deliver t es) =
     active_downloads t - int (length (filter is_terminal es))"
  by (induction es arbitrary: t) (simp_all add: deliver_active)

section \<open>The verdict of a batch\<close>


lemma all_success_iff:
  "all_success s \<longleftrightarrow>
     (\<forall>v \<in> set (video_queue s). \<forall>h. map_of (queue_items s) (video_id v) = Some h \<longrightarrow>
        (\<exists>it. lookup_item h (video_layout s) = Some it \<and> prefix check_mark (status_text it)))"
proof
  assume a: "all_success s"
  show "\<forall>v \<in> set (video_queue s). \<forall>h. map_of (queue_items s) (video_id v) = Some h \<longrightarrow>
        (\<exists>it. lookup_item h (video_layout s) = Some it \<and> prefix check_mark (status_text it))"
  proof (intro ballI allI impI)
    fix v h
    assume "v \<in> set (video_queue s)" and m: "map_of (queue_items s) (video_id v) = Some h"
    then have "v \<in> set (filter (\<lambda>v. map_of (queue_items s) (video_id v) \<noteq> None) (video_queue s))"
      by simp
    with a m have "case lookup_item h (video_layout s) of
        None \<Rightarrow> False | Some it \<Rightarrow> prefix check_mark (status_text it)"
      unfolding all_success_def registered_item_def list_all_iff by fastforce
    then show "\<exists>it. lookup_item h (video_layout s) = Some it \<and> prefix check_mark (status_text it)"
      by (cases "lookup_item h (video_layout s)") auto
  qed
next
  assume r: "\<forall>v \<in> set (video_queue s). \<forall>h. map_of (queue_items s) (video_id v) = Some h \<longrightarrow>
        (\<exists>it. lookup_item h (video_layout s) = Some it \<and> prefix check_mark (status_text it))"
  show "all_success s"
    unfolding all_success_def registered_item_def list_all_iff
  proof
    fix v
    assume "v \<in> set (filter (\<lambda>v. map_of (queue_items s) (video_id v) \<noteq> None) (video_queue s))"
    then obtain h where "v \<in> set (video_queue s)" "map_of (queue_items s) (video_id v) = Some h"
      by auto
    with r show "case case map_of (queue_items s) (video_id v) of None \<Rightarrow> None
                     | Some h \<Rightarrow> lookup_item h (video_layout s) of
                  None \<Rightarrow> False | Some it \<Rightarrow> prefix check_mark (status_text it)"
      by fastforce
  qed
qed









lemma all_success_fields:
  "video_queue t = video_queue s \<Longrightarrow> queue_items t = queue_items s \<Longrightarrow>
   video_layout t = video_layout s \<Longrightarrow> all_success t = all_success s"
  by (simp add: all_success_iff)








text \<open>
  Claim C3.  The outcome of a batch is full success only when no task failed.  This
  fails in the single-video view: a playlist of two records is fetched, the second is
  clicked and the download started; the one task reports failure and the window
  announces that all downloads completed successfully.
\<close>

theorem failed_single_download_reported_as_success:
  "dialogs (deliver (start_download (item_clicked 1
       (on_playlist_fetched [video_a, video_b] (init_app ''/d''))))
     (Finished ''a'' False ''Download failed: boom'')) =
   [Information ''Success'' ''All 1 downloads completed successfully!'']"
  by (simp add: on_playlist_fetched_def init_app_def clear_video_display_def add_queue_item_def
      new_queue_item_def item_clicked_def on_queue_item_clicked_def display_single_video_def
      start_download_def start_worker_def new_worker_def on_download_finished_def
      all_success_def
      video_a_def video_b_def Let_def str_of_int_def str_of_nat.simps digit_char_def)

section \<open>The queue\<close>

text \<open>
  Claim C8, as amended.  Adding a record whose id is queued leaves the whole state
  unchanged; adding a record whose id is not queued puts it at the end of the queue;
  adding the same record twice is the same as adding it once.  The call has no value
  (\<open>None\<close>) on both paths.
\<close>

theorem add_to_queue_dedup:
  "(video_id v \<in> set (map video_id (video_queue s)) \<longrightarrow> snd (add_to_queue v s) = s)
   \<and> (video_id v \<notin> set (map video_id (video_queue s)) \<longrightarrow>
        video_queue (snd (add_to_queue v s)) = video_queue s @ [v])
   \<and> fst (add_to_queue v s) = None
   \<and> snd (add_to_queue v (snd (add_to_queue v s))) = snd (add_to_queue v s)"
  by (auto simp: add_to_queue_def add_queue_item_def)

theorem add_to_queue_dedup_witness:
  "video_id video_a \<in> set (map video_id (video_queue (on_playlist_fetched [video_a] (init_app ''/d''))))
   \<and> snd (add_to_queue video_a (on_playlist_fetched [video_a] (init_app ''/d''))) =
       on_playlist_fetched [video_a] (init_app ''/d'')
   \<and> video_id video_b \<notin> set (map video_id (video_queue (on_playlist_fetched [video_a] (init_app ''/d''))))
   \<and> video_queue (snd (add_to_queue video_b (on_playlist_fetched [video_a] (init_app ''/d'')))) =
       [video_a, video_b]"
proof -
  have q: "video_queue (on_playlist_fetched [video_a] (init_app ''/d'')) = [video_a]"
    by (simp add: on_playlist_fetched_def init_app_def clear_video_display_def add_queue_item_def)
  have h: "video_id video_a \<in> set (map video_id (video_queue (on_playlist_fetched [video_a] (init_app ''/d''))))"
    "video_id video_b \<notin> set (map video_id (video_queue (on_playlist_fetched [video_a] (init_app ''/d''))))"
    unfolding q by (simp_all add: video_a_def video_b_def)
  from h add_to_queue_dedup [of video_a "on_playlist_fetched [video_a] (init_app ''/d'')"]
    add_to_queue_dedup [of video_b "on_playlist_fetched [video_a] (init_app ''/d'')"]
  show ?thesis by (simp add: q)
qed

text \<open>
  The claim as stated fails: the call that appends a new record does not return
  \<open>True\<close>, and the call that finds the id queued does not return \<open>False\<close>.
\<close>

theorem add_to_queue_returns_none:
  "video_id video_a \<notin> set (map video_id (video_queue (init_app ''/d'')))
   \<and> fst (add_to_queue video_a (init_app ''/d'')) \<noteq> Some True
   \<and> video_id video_a \<in> set (map video_id (video_queue (snd (add_to_queue video_a (init_app ''/d'')))))
   \<and> fst (add_to_queue video_a (snd (add_to_queue video_a (init_app ''/d'')))) \<noteq> Some False"
  by (simp add: add_to_queue_def init_app_def add_queue_item_def)

text \<open>Removal takes the id out of the queue, the registry and the selection at once.\<close>

lemma remove_from_queue_discards:
  "vid \<notin> set (map video_id (video_queue (remove_from_queue vid s)))
   \<and> vid \<notin> selected_videos (remove_from_queue vid s)
   \<and> map_of (queue_items (remove_from_queue vid s)) vid = None"
  by (auto simp: remove_from_queue_def Let_def delete_conv' split: option.splits)

text \<open>
  Claim C9.  The selected ids are ids of queued records at all times.  This fails after
  a playlist that holds the same video twice: both records get a widget, only the second
  is registered under the id, and removing the id leaves the first widget on display.
  Ticking its checkbox selects an id that is no longer queued.
\<close>

theorem selection_outside_queue:
  "selected_videos (checkbox_toggled 0 True (delete_clicked 0
       (on_playlist_fetched [video_a, video_a] (init_app ''/d'')))) = {''a''}
   \<and> video_queue (checkbox_toggled 0 True (delete_clicked 0
       (on_playlist_fetched [video_a, video_a] (init_app ''/d'')))) = []
   \<and> \<not> selected_videos (checkbox_toggled 0 True (delete_clicked 0
         (on_playlist_fetched [video_a, video_a] (init_app ''/d''))))
       \<subseteq> set (map video_id (video_queue (checkbox_toggled 0 True (delete_clicked 0
         (on_playlist_fetched [video_a, video_a] (init_app ''/d''))))))"
  by (simp add: on_playlist_fetched_def init_app_def clear_video_display_def add_queue_item_def
      new_queue_item_def delete_clicked_def remove_from_queue_def checkbox_toggled_def
      on_item_selection_changed_def video_a_def Let_def)

section \<open>Counting the tasks of a batch\<close>

subsection \<open>Starting a batch\<close>

lemma start_worker_fields:
  "download_workers (start_worker ft q cf t v) =
     download_workers t @ [new_worker (video_id v) (output_directory t) ft q cf]"
  "download_progress (start_worker ft q cf t v) = AList.update (video_id v) 0 (download_progress t)"
  "output_directory (start_worker ft q cf t v) = output_directory t"
  "active_downloads (start_worker ft q cf t v) = active_downloads t"
  "total_downloads (start_worker ft q cf t v) = total_downloads t"
  "dialogs (start_worker ft q cf t v) = dialogs t"
  by (simp_all add: start_worker_def)

lemma start_loop_fields:
  "download_workers (foldl (start_worker ft q cf) t vs) =
     download_workers t @ map (\<lambda>v. new_worker (video_id v) (output_directory t) ft q cf) vs"
  "output_directory (foldl (start_worker ft q cf) t vs) = output_directory t"
  "active_downloads (foldl (start_worker ft q cf) t vs) = active_downloads t"
  "total_downloads (foldl (start_worker ft q cf) t vs) = total_downloads t"
  "dialogs (foldl (start_worker ft q cf) t vs) = dialogs t"
  by (induction vs arbitrary: t) (simp_all add: start_worker_fields)

lemma start_download_batch:
  assumes "video_queue s \<noteq> []"
  shows "map w_video_id (download_workers (start_download s)) = map video_id (batch_records s)"
    and "list_all is_running (download_workers (start_download s))"
    and "active_downloads (start_download s) = int (length (batch_records s))"
    and "total_downloads (start_download s) = int (length (batch_records s))"
    and "dialogs (start_download s) = dialogs s"
proof -
  obtain video rest where q: "video_queue s = video # rest"
    using assms by (cases "video_queue s") auto
  define ft where "ft = (if video_radio_checked s then ''video'' else ''audio'')"
  have w: "w_video_id (new_worker a b c d e) = a" "is_running (new_worker a b c d e)"
    for a b c d e
    by (simp_all add: new_worker_def)
  show "map w_video_id (download_workers (start_download s)) = map video_id (batch_records s)"
    unfolding start_download_def batch_records_def q Let_def
    by (simp add: start_loop_fields start_worker_fields w comp_def del: foldl_Cons)
  show "list_all is_running (download_workers (start_download s))"
    unfolding start_download_def q Let_def
    by (simp add: start_loop_fields start_worker_fields w list_all_iff del: foldl_Cons)
  show "active_downloads (start_download s) = int (length (batch_records s))"
    unfolding start_download_def batch_records_def q Let_def
    by (simp add: start_loop_fields start_worker_fields del: foldl_Cons)
  show "total_downloads (start_download s) = int (length (batch_records s))"
    unfolding start_download_def batch_records_def q Let_def
    by (simp add: start_loop_fields start_worker_fields del: foldl_Cons)
  show "dialogs (start_download s) = dialogs s"
    unfolding start_download_def q Let_def
    by (simp add: start_loop_fields start_worker_fields del: foldl_Cons)
qed

subsection \<open>Merged streams\<close>

lemma interleaving_Cons:
  "interleaving ss (e # es) \<longleftrightarrow>
     (\<exists>i < length ss. \<exists>xs. ss ! i = e # xs \<and> interleaving (ss[i := xs]) es)"
proof
  assume "interleaving ss (e # es)"
  then obtain i where i: "i < length ss"
    "case ss ! i of [] \<Rightarrow> False | x # xs \<Rightarrow> x = e \<and> interleaving (ss[i := xs]) es"
    by (auto simp: list_ex_iff)
  then show "\<exists>i < length ss. \<exists>xs. ss ! i = e # xs \<and> interleaving (ss[i := xs]) es"
    by (cases "ss ! i") auto
next
  assume "\<exists>i < length ss. \<exists>xs. ss ! i = e # xs \<and> interleaving (ss[i := xs]) es"
  then obtain i xs where "i < length ss" "ss ! i = e # xs" "interleaving (ss[i := xs]) es"
    by blast
  then have "i \<in> set [0..<length ss]"
    "case ss ! i of [] \<Rightarrow> False | x # xs \<Rightarrow> x = e \<and> interleaving (ss[i := xs]) es"
    by simp_all
  then show "interleaving ss (e # es)"
    unfolding interleaving.simps list_ex_iff by blast
qed

lemma sum_list_map_update:
  fixes f :: "'a \<Rightarrow> nat"
  assumes "i < length ss"
  shows "sum_list (map f ss) + f x = sum_list (map f (ss[i := x])) + f (ss ! i)"
proof -
  have "ss = take i ss @ ss ! i # drop (Suc i) ss"
    using assms by (simp add: id_take_nth_drop)
  then have a: "sum_list (map f ss) =
      sum_list (map f (take i ss)) + f (ss ! i) + sum_list (map f (drop (Suc i) ss))"
    by (metis (no_types) add.assoc list.simps(9) map_append sum_list.Cons sum_list.append)
  have "ss[i := x] = take i ss @ x # drop (Suc i) ss"
    using assms by (simp add: upd_conv_take_nth_drop)
  then have "sum_list (map f (ss[i := x])) =
      sum_list (map f (take i ss)) + f x + sum_list (map f (drop (Suc i) ss))"
    by simp
  with a show ?thesis by simp
qed

lemma interleaving_count:
  "interleaving ss es \<Longrightarrow>
   length (filter P es) = sum_list (map (\<lambda>s. length (filter P s)) ss)"
proof (induction es arbitrary: ss)
  case Nil
  then have "\<forall>s \<in> set ss. s = []" by (simp add: list_all_iff)
  then show ?case by auto
next
  case (Cons e es)
  then obtain i xs where i: "i < length ss" "ss ! i = e # xs" "interleaving (ss[i := xs]) es"
    by (auto simp: interleaving_Cons simp del: interleaving.simps)
  from Cons.IH [OF i(3)]
  have "length (filter P es) = sum_list (map (\<lambda>s. length (filter P s)) (ss[i := xs]))" .
  moreover from sum_list_map_update [OF i(1), of "\<lambda>s. length (filter P s)" xs] i(2)
  have "sum_list (map (\<lambda>s. length (filter P s)) ss) + length (filter P xs) =
      sum_list (map (\<lambda>s. length (filter P s)) (ss[i := xs])) + length (filter P (e # xs))"
    by simp
  ultimately show ?case by (cases "P e") simp_all
qed

lemma task_stream_tail:
  assumes "task_stream (e # xs)"
  shows "(xs = [] \<and> is_terminal e) \<or> task_stream xs"
  using assms by (cases xs) (auto simp: task_stream_def)

lemma task_stream_count: "task_stream es \<Longrightarrow> length (filter is_terminal es) = 1"
proof -
  assume a: "task_stream es"
  then have "es = butlast es @ [last es]" by (simp add: task_stream_def)
  then have "filter is_terminal es = filter is_terminal (butlast es) @ filter is_terminal [last es]"
    by (metis filter_append)
  moreover from a have "filter is_terminal (butlast es) = []"
    by (simp add: task_stream_def list_all_iff)
  ultimately show ?thesis using a by (simp add: task_stream_def)
qed

lemma interleaving_last_terminal:
  "\<forall>s \<in> set ss. s = [] \<or> task_stream s \<Longrightarrow> interleaving ss es \<Longrightarrow> es \<noteq> [] \<Longrightarrow>
   is_terminal (last es)"
proof (induction es arbitrary: ss)
  case Nil
  then show ?case by simp
next
  case (Cons e es)
  then obtain i xs where i: "i < length ss" "ss ! i = e # xs" "interleaving (ss[i := xs]) es"
    by (auto simp: interleaving_Cons simp del: interleaving.simps)
  from i Cons.prems(1) have t: "task_stream (e # xs)"
    by (metis list.discI nth_mem)
  then have x: "(xs = [] \<and> is_terminal e) \<or> task_stream xs"
    by (rule task_stream_tail)
  have r: "\<forall>s \<in> set (ss[i := xs]). s = [] \<or> task_stream s"
  proof
    fix s assume "s \<in> set (ss[i := xs])"
    then have "s = xs \<or> s \<in> set ss"
      using set_update_subset_insert [of ss i xs] by auto
    with x Cons.prems(1) show "s = [] \<or> task_stream s" by auto
  qed
  show ?case
  proof (cases "es = []")
    case True
    with i(3) have "\<forall>s \<in> set (ss[i := xs]). s = []" by (simp add: list_all_iff)
    moreover have "xs \<in> set (ss[i := xs])"
      using i(1) by (simp add: set_update_memI)
    ultimately have "xs = []" by blast
    with x True show ?thesis by (auto simp: task_stream_def)
  next
    case False
    with Cons.IH [OF r i(3)] show ?thesis by simp
  qed
qed

subsection \<open>Terminal signals and the announcement\<close>

lemma worker_streams_tasks:
  assumes "list_all is_running ws" and "length engines = length ws"
  shows "length (worker_streams ws engines) = length ws"
    and "\<forall>s \<in> set (worker_streams ws engines). task_stream s"
proof -
  show "length (worker_streams ws engines) = length ws"
    using assms(2) by (simp add: worker_streams_def)
  show "\<forall>s \<in> set (worker_streams ws engines). task_stream s"
  proof
    fix s assume "s \<in> set (worker_streams ws engines)"
    then obtain w e where "(w, e) \<in> set (zip ws engines)" "s = run w e"
      by (auto simp: worker_streams_def)
    moreover from this(1) have "w \<in> set ws" by (rule set_zip_leftD)
    ultimately show "task_stream s"
      using assms(1) run_task_stream [of w e] by (simp add: list_all_iff)
  qed
qed

lemma sum_list_ones:
  fixes f :: "'a \<Rightarrow> nat"
  shows "\<forall>s \<in> set ss. f s = 1 \<Longrightarrow> sum_list (map f ss) = length ss"
  by (induction ss) auto

lemma batch_terminal_count:
  assumes "\<forall>s \<in> set ss. task_stream s" and "interleaving ss es"
  shows "length (filter is_terminal es) = length ss"
proof -
  have "sum_list (map (\<lambda>s. length (filter is_terminal s)) ss) = length ss"
    using assms(1) by (intro sum_list_ones) (simp add: task_stream_count)
  with interleaving_count [OF assms(2), of is_terminal] show ?thesis by simp
qed

lemma deliver_dialogs_unchanged:
  "\<not> is_terminal e \<or> 1 < active_downloads t \<Longrightarrow> dialogs (deliver t e) = dialogs t"
  by (cases e) (auto simp: on_download_progress_fields on_download_finished_dialogs)

lemma deliver_dialogs_final:
  "is_terminal e \<Longrightarrow> active_downloads t \<le> 1 \<Longrightarrow>
   length (dialogs (deliver t e)) = Suc (length (dialogs t))"
  by (cases e) (auto simp: on_download_finished_dialogs)

lemma terminal_count_pos:
  assumes "es \<noteq> []" and "is_terminal (last es)"
  shows "0 < length (filter is_terminal es)"
proof -
  from assms have "last es \<in> set (filter is_terminal es)" by simp
  then show ?thesis by (metis length_pos_if_in_set)
qed

lemma announced_once:
  assumes "active_downloads t = int (length (filter is_terminal es))"
    and "es \<noteq> []" and "is_terminal (last es)"
  shows "length (dialogs (foldl deliver t es)) = Suc (length (dialogs t))"
  using assms
proof (induction es arbitrary: t)
  case Nil
  then show ?case by simp
next
  case (Cons e es)
  show ?case
  proof (cases "es = []")
    case True
    with Cons.prems show ?thesis by (simp add: deliver_dialogs_final)
  next
    case False
    with Cons.prems have l: "is_terminal (last es)" by simp
    with False have p: "0 < length (filter is_terminal es)" by (rule terminal_count_pos)
    from Cons.prems(1) have a: "active_downloads (deliver t e) = int (length (filter is_terminal es))"
      by (simp add: deliver_active)
    from Cons.prems(1) p have "dialogs (deliver t e) = dialogs t"
      by (intro deliver_dialogs_unchanged) auto
    with Cons.IH [OF a False l] show ?thesis by simp
  qed
qed

lemma active_zero_at_end:
  assumes "active_downloads t = int (length (filter is_terminal es))"
    and "es \<noteq> [] \<longrightarrow> is_terminal (last es)" and "k \<le> length es"
  shows "active_downloads (foldl deliver t (take k es)) = 0 \<longleftrightarrow> k = length es"
proof -
  have "filter is_terminal es = filter is_terminal (take k es) @ filter is_terminal (drop k es)"
    by (metis append_take_drop_id filter_append)
  then have "length (filter is_terminal es) =
      length (filter is_terminal (take k es)) + length (filter is_terminal (drop k es))"
    by simp
  with assms(1) have a: "active_downloads (foldl deliver t (take k es)) =
      int (length (filter is_terminal (drop k es)))"
    by (simp add: foldl_deliver_active)
  show ?thesis
  proof (cases "k = length es")
    case True
    with a show ?thesis by simp
  next
    case False
    with assms(3) have d: "drop k es \<noteq> []" by simp
    then have "es \<noteq> []" by auto
    with assms(2) d have "is_terminal (last (drop k es))" by simp
    with d have "0 < length (filter is_terminal (drop k es))" by (rule terminal_count_pos)
    with a False show ?thesis by simp
  qed
qed

text \<open>
  A batch that runs alone.  Pressing the download button with a non-empty queue starts
  one worker per record of the batch, in the order of the records (the batch is the
  whole queue in the queue view and the first record otherwise), and sets both
  \<open>active_downloads\<close> and \<open>total_downloads\<close> to the number of records.  Every
  \<open>finished\<close> signal lowers \<open>active_downloads\<close> by exactly one.  When the signals
  delivered to the window are a merge of the runs of these workers and of no others,
  there are as many terminal signals as records, \<open>active_downloads\<close> is zero after the
  last signal and after no proper prefix, and the batch is announced by exactly one
  dialog.
\<close>

lemma lone_batch_counting:
  assumes "video_queue s \<noteq> []"
    and "length engines = length (batch_records s)"
    and "interleaving (worker_streams (download_workers (start_download s)) engines) es"
    and "k \<le> length es"
  shows "map w_video_id (download_workers (start_download s)) = map video_id (batch_records s)
    \<and> (is_queue_mode s \<and> \<not> viewing_single_in_queue s \<longrightarrow>
         length (download_workers (start_download s)) = length (video_queue s))
    \<and> active_downloads (start_download s) = int (length (batch_records s))
    \<and> total_downloads (start_download s) = int (length (batch_records s))
    \<and> active_downloads (on_download_finished vid ok msg t) = active_downloads t - 1
    \<and> length (filter is_terminal es) = length (batch_records s)
    \<and> (active_downloads (foldl deliver (start_download s) (take k es)) = 0 \<longleftrightarrow> k = length es)
    \<and> length (dialogs (foldl deliver (start_download s) es)) = Suc (length (dialogs s))"
proof -
  define s0 where "s0 = start_download s"
  define ss where "ss = worker_streams (download_workers s0) engines"
  note b = start_download_batch [OF assms(1), folded s0_def]
  from b(1) have n: "length (download_workers s0) = length (batch_records s)"
    by (metis length_map)
  then have bulk: "is_queue_mode s \<and> \<not> viewing_single_in_queue s \<longrightarrow>
      length (download_workers s0) = length (video_queue s)"
    by (simp add: batch_records_def)
  from assms(2) n have e: "length engines = length (download_workers s0)" by simp
  note w = worker_streams_tasks [OF b(2) e, folded ss_def]
  from assms(3) have i: "interleaving ss es" by (simp add: ss_def s0_def)
  from batch_terminal_count [OF w(2) i] w(1) n
  have c: "length (filter is_terminal es) = length (batch_records s)" by simp
  from assms(1) have "batch_records s \<noteq> []" by (auto simp: batch_records_def)
  with c have ne: "es \<noteq> []" by auto
  from w(2) have "\<forall>s \<in> set ss. s = [] \<or> task_stream s" by simp
  from interleaving_last_terminal [OF this i ne] have l: "is_terminal (last es)" .
  from b(3) c have a: "active_downloads s0 = int (length (filter is_terminal es))" by simp
  have z: "active_downloads (foldl deliver s0 (take k es)) = 0 \<longleftrightarrow> k = length es"
    using active_zero_at_end [OF a _ assms(4)] l by simp
  have d: "length (dialogs (foldl deliver s0 es)) = Suc (length (dialogs s))"
    using announced_once [OF a ne l] b(5) by simp
  show ?thesis
    using b(1) bulk b(3) b(4) on_download_finished_fields(1) [of vid ok msg t] c z d
    unfolding s0_def by blast
qed

lemma queue_ab_fields:
  "video_queue queue_ab = [video_a, video_b]" "is_queue_mode queue_ab"
  "\<not> viewing_single_in_queue queue_ab" "dialogs queue_ab = []"
  by (simp_all add: queue_ab_def on_playlist_fetched_def init_app_def clear_video_display_def
      add_queue_item_def)

lemma streams_ab:
  "worker_streams (download_workers (start_download queue_ab)) [engine_ok, engine_fail] =
     [[Progress ''a'' 25 ''0 B/s'' ''Unknown'', Finished ''a'' True ''Download completed successfully!''],
      [Finished ''b'' False ''Download failed: boom'']]"
  by (simp add: start_download_def queue_ab_fields Let_def start_worker_def worker_streams_def
      run_def new_worker_def engine_ok_def engine_fail_def progress_hook_def tick_of_def
      tick_total_def tick_downloaded_def dict_get_def py_or_def truediv_def format_speed_def
      format_time_def video_a_def video_b_def)

text \<open>
  A queue of two records: the first worker reports a tick and succeeds, the second
  fails, and the failure is delivered between the two signals of the first.
\<close>

lemma lone_batch_counting_example:
  "video_queue queue_ab \<noteq> []
   \<and> length [engine_ok, engine_fail] = length (batch_records queue_ab)
   \<and> interleaving (worker_streams (download_workers (start_download queue_ab))
        [engine_ok, engine_fail]) events_ab
   \<and> 2 \<le> length events_ab
   \<and> length (download_workers (start_download queue_ab)) = 2
   \<and> active_downloads (start_download queue_ab) = 2
   \<and> active_downloads (foldl deliver (start_download queue_ab) (take 2 events_ab)) \<noteq> 0
   \<and> active_downloads (foldl deliver (start_download queue_ab) (take 3 events_ab)) = 0
   \<and> length (dialogs (foldl deliver (start_download queue_ab) events_ab)) = 1"
proof -
  have h: "video_queue queue_ab \<noteq> []"
    "length [engine_ok, engine_fail] = length (batch_records queue_ab)"
    "2 \<le> length events_ab" "3 \<le> length events_ab" "length events_ab = 3"
    "length (video_queue queue_ab) = 2" "length (batch_records queue_ab) = 2"
    by (simp_all add: queue_ab_fields batch_records_def events_ab_def)
  have i: "interleaving (worker_streams (download_workers (start_download queue_ab))
        [engine_ok, engine_fail]) events_ab"
    unfolding streams_ab by (simp add: events_ab_def)
  from lone_batch_counting [OF h(1) h(2) i h(3)] lone_batch_counting [OF h(1) h(2) i h(4)]
    h queue_ab_fields i
  show ?thesis by simp
qed

text \<open>
  Claim C1.  For every batch the count of active downloads reaches zero exactly once,
  and no progress signal of the batch is handled afterwards.  This fails when a batch
  is started while another one runs: \<open>_start_download\<close> disables the download button,
  but \<open>_add_to_queue\<close> enables it again for a record fetched during the batch.  A
  playlist of two records is fetched and the download started; a third record is
  fetched, which enables the button, and the download is started again, for three
  records, while the two workers of the first batch run.  The five workers then
  deliver six signals: the count goes from 3 down through 0 to -2, the progress
  signal of the third record is handled when the count is -1, and three dialogs
  announce the end.
\<close>

theorem overlapping_batches_miscount:
  "download_btn_enabled queue_ab
   \<and> \<not> download_btn_enabled (start_download queue_ab)
   \<and> download_btn_enabled (on_video_info_fetched video_c (start_download queue_ab))
   \<and> map w_video_id (download_workers (start_download queue_ab)) = [''a'', ''b'']
   \<and> map w_video_id (download_workers restarted_abc) = [''a'', ''b'', ''c'']
   \<and> interleaving
        (worker_streams (download_workers (start_download queue_ab)) [engine_done, engine_done]
           @ worker_streams (download_workers restarted_abc) [engine_done, engine_done, engine_ok])
        events_overlap
   \<and> map (\<lambda>k. active_downloads (foldl deliver restarted_abc (take k events_overlap))) [0..<7] =
        [3, 2, 1, 0, - 1, - 1, - 2]
   \<and> events_overlap ! 4 = Progress ''c'' 25 ''0 B/s'' ''Unknown''
   \<and> map_of (download_progress (foldl deliver restarted_abc (take 4 events_overlap))) ''c'' = Some 0
   \<and> map_of (download_progress (foldl deliver restarted_abc (take 5 events_overlap))) ''c'' = Some 25
   \<and> dialogs (foldl deliver restarted_abc events_overlap) =
        [Warning ''Completed with Errors''
           ''3 downloads completed, but some had errors. Check the queue for details.'',
         Warning ''Completed with Errors''
           ''4 downloads completed, but some had errors. Check the queue for details.'',
         Information ''Success'' ''All 3 downloads completed successfully!'']"
  by code_simp

section \<open>The aggregate progress of a batch\<close>

lemma sum_list_distinct_map_of:
  "distinct (map fst d) \<Longrightarrow> sum_list (map snd d) = (\<Sum>k \<in> set (map fst d). the (map_of d k))"
proof (induction d)
  case Nil
  then show ?case by simp
next
  case (Cons p d)
  obtain k v where p: "p = (k, v)" by (cases p)
  from Cons.prems p have k: "k \<notin> set (map fst d)" and dd: "distinct (map fst d)"
    by simp_all
  have "(\<Sum>j \<in> set (map fst d). the (map_of (p # d) j)) = (\<Sum>j \<in> set (map fst d). the (map_of d j))"
    using k p by (intro sum.cong) auto
  with Cons.IH [OF dd] k p show ?case by simp
qed

lemma avg_progress_mean:
  assumes "distinct (map fst d)"
  shows "avg_progress d = mean_of_values (map_of d)"
proof -
  have "dom (map_of d) = set (map fst d)"
    by (simp add: dom_map_of_conv_image_fst)
  moreover have "card (set (map fst d)) = length d"
    using assms distinct_card [of "map fst d"] by simp
  ultimately show ?thesis
    using sum_list_distinct_map_of [OF assms]
    by (simp add: avg_progress_def mean_of_values_def)
qed

lemma sum_list_upper:
  fixes xs :: "rat list"
  shows "\<forall>x \<in> set xs. x \<le> c \<Longrightarrow> sum_list xs \<le> c * of_nat (length xs)"
  by (induction xs) (auto simp: algebra_simps)

lemma avg_progress_bounds:
  assumes "\<forall>x \<in> set (map snd d). 0 \<le> x \<and> x \<le> 100"
  shows "0 \<le> avg_progress d \<and> avg_progress d \<le> 100"
proof (cases "d = []")
  case True
  then show ?thesis by (simp add: avg_progress_def)
next
  case False
  then have n: "0 < (of_nat (length d) :: rat)" by simp
  from assms have "0 \<le> sum_list (map snd d)"
    by (intro sum_list_nonneg) auto
  moreover from assms sum_list_upper [of "map snd d" 100]
  have "sum_list (map snd d) \<le> 100 * of_nat (length d)" by simp
  ultimately show ?thesis
    using n by (simp add: avg_progress_def divide_le_eq)
qed

lemma update_values: "set (map snd (AList.update k v d)) \<subseteq> insert v (set (map snd d))"
  by (induction d) auto

lemma update_not_Nil: "AList.update k v d \<noteq> []"
  by (cases d) auto

subsection \<open>The progress map during a batch\<close>

lemma deliver_progress:
  "download_progress (deliver t e) =
     (if is_terminal e then download_progress t
      else AList.update (ev_video_id e) (ev_percentage e) (download_progress t))"
  by (cases e) (simp_all add: on_download_progress_fields on_download_finished_fields)

lemma deliver_distinct:
  "distinct (map fst (download_progress t)) \<Longrightarrow> distinct (map fst (download_progress (deliver t e)))"
  by (simp add: deliver_progress distinct_update)

lemma foldl_deliver_distinct:
  "distinct (map fst (download_progress t)) \<Longrightarrow>
   distinct (map fst (download_progress (foldl deliver t es)))"
  by (induction es arbitrary: t) (simp_all add: deliver_distinct)

lemma foldl_deliver_values:
  "set (map snd (download_progress (foldl deliver t es))) \<subseteq>
     set (map snd (download_progress t)) \<union> ev_percentage ` {e \<in> set es. \<not> is_terminal e}"
proof (induction es arbitrary: t)
  case Nil
  then show ?case by simp
next
  case (Cons e es)
  have a: "set (map snd (download_progress (deliver t e))) \<subseteq>
      set (map snd (download_progress t)) \<union> ev_percentage ` {x \<in> set [e]. \<not> is_terminal x}"
  proof (cases "is_terminal e")
    case True
    then show ?thesis by (simp add: deliver_progress)
  next
    case False
    then have "ev_percentage ` {x \<in> set [e]. \<not> is_terminal x} = {ev_percentage e}"
      by auto
    with False update_values [of "ev_video_id e" "ev_percentage e" "download_progress t"]
    show ?thesis by (simp add: deliver_progress)
  qed
  have b: "ev_percentage ` {x \<in> set [e]. \<not> is_terminal x}
      \<union> ev_percentage ` {x \<in> set es. \<not> is_terminal x}
      \<subseteq> ev_percentage ` {x \<in> set (e # es). \<not> is_terminal x}"
    by auto
  have "set (map snd (download_progress (foldl deliver (deliver t e) es))) \<subseteq>
      set (map snd (download_progress t)) \<union> ev_percentage ` {x \<in> set (e # es). \<not> is_terminal x}"
    using Cons.IH [of "deliver t e"] a b by blast
  then show ?case by simp
qed

lemma start_loop_progress:
  "distinct (map fst (download_progress t)) \<Longrightarrow>
     distinct (map fst (download_progress (foldl (start_worker ft q cf) t vs)))"
  "set (map snd (download_progress (foldl (start_worker ft q cf) t vs))) \<subseteq>
     insert 0 (set (map snd (download_progress t)))"
proof (induction vs arbitrary: t)
  case Nil
  { case 1 then show ?case by simp }
  { case 2 show ?case by auto }
next
  case (Cons v vs)
  { case 1
    then have "distinct (map fst (download_progress (start_worker ft q cf t v)))"
      by (simp add: start_worker_fields distinct_update)
    from Cons.IH(1) [OF this] show ?case by simp }
  { case 2
    have "set (map snd (download_progress (start_worker ft q cf t v))) \<subseteq>
        insert 0 (set (map snd (download_progress t)))"
      using update_values [of "video_id v" 0 "download_progress t"]
      by (simp add: start_worker_fields)
    with Cons.IH(2) [of "start_worker ft q cf t v"] show ?case by auto }
qed

lemma start_loop_zero:
  assumes "download_progress t = []"
  shows "snd ` set (download_progress (foldl (start_worker ft q cf) t vs)) \<subseteq> {0}"
  using start_loop_progress(2) [of ft q cf t vs] assms by simp

lemma start_download_progress:
  assumes "video_queue s \<noteq> []"
  shows "distinct (map fst (download_progress (start_download s)))"
    and "set (map snd (download_progress (start_download s))) \<subseteq> {0}"
proof -
  obtain video rest where q: "video_queue s = video # rest"
    using assms by (cases "video_queue s") auto
  show "distinct (map fst (download_progress (start_download s)))"
    unfolding start_download_def q Let_def
    by (simp add: start_loop_progress(1) start_worker_fields del: foldl_Cons)
  show "set (map snd (download_progress (start_download s))) \<subseteq> {0}"
    unfolding start_download_def q Let_def
    by (simp add: start_loop_zero start_worker_fields del: foldl_Cons)
qed

subsection \<open>Independence of the order between tasks\<close>

lemma deliver_lookup:
  "map_of (download_progress (deliver t e)) v =
     (if \<not> is_terminal e \<and> ev_video_id e = v then Some (ev_percentage e)
      else map_of (download_progress t) v)"
  by (simp add: deliver_progress update_conv')

lemma lookup_projection:
  "map_of (download_progress t) v = map_of (download_progress u) v \<Longrightarrow>
   map_of (download_progress (foldl deliver t es)) v =
     map_of (download_progress (foldl deliver u (filter (\<lambda>e. ev_video_id e = v) es))) v"
proof (induction es arbitrary: t u)
  case Nil
  then show ?case by simp
next
  case (Cons e es)
  show ?case
  proof (cases "ev_video_id e = v")
    case True
    from Cons.prems have "map_of (download_progress (deliver t e)) v =
        map_of (download_progress (deliver u e)) v"
      by (simp add: deliver_lookup)
    from Cons.IH [OF this] True show ?thesis by simp
  next
    case False
    with Cons.prems have "map_of (download_progress (deliver t e)) v =
        map_of (download_progress u) v"
      by (simp add: deliver_lookup)
    from Cons.IH [OF this] False show ?thesis by simp
  qed
qed

lemma order_between_tasks:
  assumes "\<forall>v. filter (\<lambda>e. ev_video_id e = v) es = filter (\<lambda>e. ev_video_id e = v) es'"
  shows "map_of (download_progress (foldl deliver t es)) =
         map_of (download_progress (foldl deliver t es'))"
proof
  fix v
  from assms have "filter (\<lambda>e. ev_video_id e = v) es = filter (\<lambda>e. ev_video_id e = v) es'"
    by blast
  with lookup_projection [of t v t es] lookup_projection [of t v t es']
  show "map_of (download_progress (foldl deliver t es)) v =
        map_of (download_progress (foldl deliver t es')) v"
    by simp
qed

lemma progress_bar_shows_aggregate:
  assumes "es \<noteq> []" and "\<not> is_terminal (last es)"
  shows "progress_bar_value (foldl deliver t es) =
           Some (py_int (avg_progress (download_progress (foldl deliver t es))))"
proof -
  from assms(1) have "es = butlast es @ [last es]" by simp
  then have f: "foldl deliver t es = deliver (foldl deliver t (butlast es)) (last es)"
    by (metis foldl_Cons foldl_Nil foldl_append)
  from assms(2) obtain vid p sp et where l: "last es = Progress vid p sp et"
    by (cases "last es") auto
  show ?thesis
    unfolding f l
    by (simp add: on_download_progress_def Let_def update_not_Nil split: option.splits)
qed

subsection \<open>The signals of one task in a merge\<close>

lemma interleaving_filter:
  assumes "interleaving ss es" and "j < length ss"
    and "\<forall>e \<in> set (ss ! j). P e"
    and "\<forall>i < length ss. i \<noteq> j \<longrightarrow> (\<forall>e \<in> set (ss ! i). \<not> P e)"
  shows "filter P es = ss ! j"
  using assms
proof (induction es arbitrary: ss)
  case Nil
  then have "ss ! j = []" by (simp add: list_all_length)
  then show ?case by simp
next
  case (Cons e es)
  then obtain i xs where i: "i < length ss" "ss ! i = e # xs" "interleaving (ss[i := xs]) es"
    by (auto simp: interleaving_Cons simp del: interleaving.simps)
  have a: "j < length (ss[i := xs])" using Cons.prems(2) by simp
  have b: "\<forall>e \<in> set ((ss[i := xs]) ! j). P e"
    using Cons.prems(2,3) i by (cases "i = j") auto
  have c: "\<forall>k < length (ss[i := xs]). k \<noteq> j \<longrightarrow> (\<forall>e \<in> set ((ss[i := xs]) ! k). \<not> P e)"
  proof (intro allI impI)
    fix k assume k: "k < length (ss[i := xs])" "k \<noteq> j"
    with Cons.prems(4) have "\<forall>e \<in> set (ss ! k). \<not> P e" by simp
    with i k show "\<forall>e \<in> set ((ss[i := xs]) ! k). \<not> P e" by (cases "k = i") auto
  qed
  note h = Cons.IH [OF i(3) a b c]
  show ?case
  proof (cases "i = j")
    case True
    with Cons.prems(3) i have "P e" by auto
    with h True i show ?thesis by simp
  next
    case False
    with Cons.prems(4) i have "\<not> P e" by auto
    with h False i Cons.prems(2) show ?thesis by simp
  qed
qed

lemma interleaving_filter_none:
  assumes "interleaving ss es" and "\<forall>s \<in> set ss. \<forall>e \<in> set s. \<not> P e"
  shows "filter P es = []"
proof -
  from assms(2) have "\<forall>s \<in> set ss. length (filter P s) = 0" by simp
  then have "sum_list (map (\<lambda>s. length (filter P s)) ss) = 0" by simp
  with interleaving_count [OF assms(1), of P] show ?thesis by simp
qed

lemma worker_streams_nth:
  assumes "i < length (worker_streams ws engines)"
  shows "i < length ws" and "worker_streams ws engines ! i = run (ws ! i) (engines ! i)"
  using assms by (simp_all add: worker_streams_def)

lemma signals_of_one_id:
  assumes "distinct (map w_video_id ws)" and "list_all is_running ws"
    and "interleaving (worker_streams ws engines) es"
    and "interleaving (worker_streams ws engines) es'"
  shows "filter (\<lambda>e. ev_video_id e = v) es = filter (\<lambda>e. ev_video_id e = v) es'"
proof -
  define ss where "ss = worker_streams ws engines"
  have ids: "\<forall>e \<in> set (ss ! i). ev_video_id e = w_video_id (ws ! i)" if "i < length ss" for i
  proof -
    from that have l: "i < length ws" and r: "ss ! i = run (ws ! i) (engines ! i)"
      unfolding ss_def by (rule worker_streams_nth)+
    from l assms(2) have "is_running (ws ! i)" by (simp add: list_all_length)
    from run_task_stream [OF this, of "engines ! i"] r show ?thesis
      by (simp add: list_all_iff)
  qed
  show ?thesis
  proof (cases "\<exists>j < length ss. w_video_id (ws ! j) = v")
    case True
    then obtain j where j: "j < length ss" "w_video_id (ws ! j) = v" by blast
    have a: "\<forall>e \<in> set (ss ! j). ev_video_id e = v"
      using ids [OF j(1)] j(2) by simp
    have b: "\<forall>i < length ss. i \<noteq> j \<longrightarrow> (\<forall>e \<in> set (ss ! i). \<not> ev_video_id e = v)"
    proof (intro allI impI)
      fix i assume i: "i < length ss" "i \<noteq> j"
      from i(1) j(1) have "i < length ws" "j < length ws"
        unfolding ss_def by (simp_all add: worker_streams_def)
      with assms(1) i(2) have "w_video_id (ws ! i) \<noteq> w_video_id (ws ! j)"
        by (simp add: distinct_conv_nth)
      with ids [OF i(1)] j(2) show "\<forall>e \<in> set (ss ! i). \<not> ev_video_id e = v" by simp
    qed
    from interleaving_filter [OF assms(3) [folded ss_def] j(1) a b]
      interleaving_filter [OF assms(4) [folded ss_def] j(1) a b]
    show ?thesis by simp
  next
    case False
    have n: "\<forall>s \<in> set ss. \<forall>e \<in> set s. \<not> ev_video_id e = v"
    proof
      fix s assume "s \<in> set ss"
      then obtain i where i: "i < length ss" "s = ss ! i" by (auto simp: in_set_conv_nth)
      with False have "w_video_id (ws ! i) \<noteq> v" by blast
      with ids [OF i(1)] i(2) show "\<forall>e \<in> set s. \<not> ev_video_id e = v" by simp
    qed
    from interleaving_filter_none [OF assms(3) [folded ss_def] n]
      interleaving_filter_none [OF assms(4) [folded ss_def] n]
    show ?thesis by simp
  qed
qed

text \<open>
  Claim C2, as amended.  At every point of a batch the aggregate computed by
  \<open>_on_download_progress\<close> is the arithmetic mean of the values stored in
  \<open>download_progress\<close>, and it is what the progress bar shows, truncated, after a progress
  signal.  It lies between 0 and 100 provided that every percentage reported so far
  does.  Two sequences of signals that contain, for every video id, the same signals
  with that id in the same order yield the same aggregate.  In particular, when the
  records of the batch have distinct ids, any two merges of the runs of the workers of
  the batch yield the same aggregate.
\<close>

theorem aggregate_progress:
  assumes "video_queue s \<noteq> []"
  shows "avg_progress (download_progress (foldl deliver (start_download s) es)) =
           mean_of_values (map_of (download_progress (foldl deliver (start_download s) es)))
    \<and> (es \<noteq> [] \<and> \<not> is_terminal (last es) \<longrightarrow>
         progress_bar_value (foldl deliver (start_download s) es) =
           Some (py_int (avg_progress (download_progress (foldl deliver (start_download s) es)))))
    \<and> ((\<forall>e \<in> set es. \<not> is_terminal e \<longrightarrow> 0 \<le> ev_percentage e \<and> ev_percentage e \<le> 100) \<longrightarrow>
         0 \<le> avg_progress (download_progress (foldl deliver (start_download s) es))
         \<and> avg_progress (download_progress (foldl deliver (start_download s) es)) \<le> 100)
    \<and> ((\<forall>v. filter (\<lambda>e. ev_video_id e = v) es = filter (\<lambda>e. ev_video_id e = v) es') \<longrightarrow>
         avg_progress (download_progress (foldl deliver (start_download s) es)) =
         avg_progress (download_progress (foldl deliver (start_download s) es')))
    \<and> (distinct (map video_id (batch_records s))
         \<and> interleaving (worker_streams (download_workers (start_download s)) engines) es
         \<and> interleaving (worker_streams (download_workers (start_download s)) engines) es' \<longrightarrow>
         avg_progress (download_progress (foldl deliver (start_download s) es)) =
         avg_progress (download_progress (foldl deliver (start_download s) es')))"
proof -
  define s0 where "s0 = start_download s"
  note p = start_download_progress [OF assms, folded s0_def]
  note w = start_download_batch [OF assms, folded s0_def]
  have d: "distinct (map fst (download_progress (foldl deliver s0 xs)))" for xs
    using p(1) by (rule foldl_deliver_distinct)
  have a: "avg_progress (download_progress (foldl deliver s0 es)) =
      mean_of_values (map_of (download_progress (foldl deliver s0 es)))"
    using d by (rule avg_progress_mean)
  have b: "0 \<le> avg_progress (download_progress (foldl deliver s0 es))
         \<and> avg_progress (download_progress (foldl deliver s0 es)) \<le> 100"
    if r: "\<forall>e \<in> set es. \<not> is_terminal e \<longrightarrow> 0 \<le> ev_percentage e \<and> ev_percentage e \<le> 100"
  proof (rule avg_progress_bounds, rule ballI)
    fix x assume "x \<in> set (map snd (download_progress (foldl deliver s0 es)))"
    with foldl_deliver_values [of s0 es] p(2)
    have "x = 0 \<or> x \<in> ev_percentage ` {e \<in> set es. \<not> is_terminal e}" by auto
    with r show "0 \<le> x \<and> x \<le> 100" by auto
  qed
  have c: "avg_progress (download_progress (foldl deliver s0 es)) =
         avg_progress (download_progress (foldl deliver s0 es'))"
    if "\<forall>v. filter (\<lambda>e. ev_video_id e = v) es = filter (\<lambda>e. ev_video_id e = v) es'"
    using order_between_tasks [OF that, of s0] avg_progress_mean [OF d [of es]]
      avg_progress_mean [OF d [of es']]
    by simp
  have e: "avg_progress (download_progress (foldl deliver s0 es)) =
         avg_progress (download_progress (foldl deliver s0 es'))"
    if t: "distinct (map video_id (batch_records s))
         \<and> interleaving (worker_streams (download_workers s0) engines) es
         \<and> interleaving (worker_streams (download_workers s0) engines) es'"
  proof (rule c, rule allI)
    fix v
    from t w(1) have "distinct (map w_video_id (download_workers s0))" by simp
    from signals_of_one_id [OF this w(2)] t
    show "filter (\<lambda>e. ev_video_id e = v) es = filter (\<lambda>e. ev_video_id e = v) es'"
      by blast
  qed
  show ?thesis
    using a b c e progress_bar_shows_aggregate [of es s0] unfolding s0_def by blast
qed

text \<open>
  Two tasks at 50 and 100 percent, delivered in both orders, and two merges of the runs
  of the workers of the queue of two records.
\<close>

theorem aggregate_progress_witness:
  "video_queue queue_ab \<noteq> []
   \<and> (\<forall>v. filter (\<lambda>e. ev_video_id e = v)
            [Progress ''a'' 50 ''1 B/s'' ''3s'', Progress ''b'' 100 ''1 B/s'' ''1s''] =
          filter (\<lambda>e. ev_video_id e = v)
            [Progress ''b'' 100 ''1 B/s'' ''1s'', Progress ''a'' 50 ''1 B/s'' ''3s''])
   \<and> avg_progress (download_progress (foldl deliver (start_download queue_ab)
        [Progress ''a'' 50 ''1 B/s'' ''3s'', Progress ''b'' 100 ''1 B/s'' ''1s''])) =
      avg_progress (download_progress (foldl deliver (start_download queue_ab)
        [Progress ''b'' 100 ''1 B/s'' ''1s'', Progress ''a'' 50 ''1 B/s'' ''3s'']))
   \<and> 0 \<le> avg_progress (download_progress (foldl deliver (start_download queue_ab)
        [Progress ''a'' 50 ''1 B/s'' ''3s'', Progress ''b'' 100 ''1 B/s'' ''1s'']))
   \<and> avg_progress (download_progress (foldl deliver (start_download queue_ab)
        [Progress ''a'' 50 ''1 B/s'' ''3s'', Progress ''b'' 100 ''1 B/s'' ''1s''])) \<le> 100
   \<and> progress_bar_value (foldl deliver (start_download queue_ab)
        [Progress ''a'' 50 ''1 B/s'' ''3s'', Progress ''b'' 100 ''1 B/s'' ''1s'']) =
      Some (py_int (avg_progress (download_progress (foldl deliver (start_download queue_ab)
        [Progress ''a'' 50 ''1 B/s'' ''3s'', Progress ''b'' 100 ''1 B/s'' ''1s'']))))
   \<and> distinct (map video_id (batch_records queue_ab))
   \<and> interleaving (worker_streams (download_workers (start_download queue_ab))
        [engine_ok, engine_fail]) events_ab
   \<and> interleaving (worker_streams (download_workers (start_download queue_ab))
        [engine_ok, engine_fail])
        [Finished ''b'' False ''Download failed: boom'', Progress ''a'' 25 ''0 B/s'' ''Unknown'',
         Finished ''a'' True ''Download completed successfully!'']
   \<and> avg_progress (download_progress (foldl deliver (start_download queue_ab) events_ab)) =
      avg_progress (download_progress (foldl deliver (start_download queue_ab)
        [Finished ''b'' False ''Download failed: boom'', Progress ''a'' 25 ''0 B/s'' ''Unknown'',
         Finished ''a'' True ''Download completed successfully!'']))"
proof -
  have h: "video_queue queue_ab \<noteq> []" by (simp add: queue_ab_fields)
  have p: "\<forall>v. filter (\<lambda>e. ev_video_id e = v)
            [Progress ''a'' 50 ''1 B/s'' ''3s'', Progress ''b'' 100 ''1 B/s'' ''1s''] =
          filter (\<lambda>e. ev_video_id e = v)
            [Progress ''b'' 100 ''1 B/s'' ''1s'', Progress ''a'' 50 ''1 B/s'' ''3s'']"
    by auto
  have r: "\<forall>e \<in> set [Progress ''a'' 50 ''1 B/s'' ''3s'', Progress ''b'' 100 ''1 B/s'' ''1s''].
      \<not> is_terminal e \<longrightarrow> 0 \<le> ev_percentage e \<and> ev_percentage e \<le> 100"
    by simp
  have l: "[Progress ''a'' 50 ''1 B/s'' ''3s'', Progress ''b'' 100 ''1 B/s'' ''1s''] \<noteq> []
     \<and> \<not> is_terminal (last [Progress ''a'' 50 ''1 B/s'' ''3s'', Progress ''b'' 100 ''1 B/s'' ''1s''])"
    by simp
  have d: "distinct (map video_id (batch_records queue_ab))"
    by (simp add: batch_records_def queue_ab_fields video_a_def video_b_def)
  have i: "interleaving (worker_streams (download_workers (start_download queue_ab))
        [engine_ok, engine_fail]) events_ab"
    "interleaving (worker_streams (download_workers (start_download queue_ab))
        [engine_ok, engine_fail])
        [Finished ''b'' False ''Download failed: boom'', Progress ''a'' 25 ''0 B/s'' ''Unknown'',
         Finished ''a'' True ''Download completed successfully!'']"
    unfolding streams_ab by (simp_all add: events_ab_def)
  from aggregate_progress [OF h,
      of "[Progress ''a'' 50 ''1 B/s'' ''3s'', Progress ''b'' 100 ''1 B/s'' ''1s'']"
         "[Progress ''b'' 100 ''1 B/s'' ''1s'', Progress ''a'' 50 ''1 B/s'' ''3s'']"] h p r l
  have a: "avg_progress (download_progress (foldl deliver (start_download queue_ab)
        [Progress ''a'' 50 ''1 B/s'' ''3s'', Progress ''b'' 100 ''1 B/s'' ''1s''])) =
      avg_progress (download_progress (foldl deliver (start_download queue_ab)
        [Progress ''b'' 100 ''1 B/s'' ''1s'', Progress ''a'' 50 ''1 B/s'' ''3s'']))
   \<and> 0 \<le> avg_progress (download_progress (foldl deliver (start_download queue_ab)
        [Progress ''a'' 50 ''1 B/s'' ''3s'', Progress ''b'' 100 ''1 B/s'' ''1s'']))
   \<and> avg_progress (download_progress (foldl deliver (start_download queue_ab)
        [Progress ''a'' 50 ''1 B/s'' ''3s'', Progress ''b'' 100 ''1 B/s'' ''1s''])) \<le> 100
   \<and> progress_bar_value (foldl deliver (start_download queue_ab)
        [Progress ''a'' 50 ''1 B/s'' ''3s'', Progress ''b'' 100 ''1 B/s'' ''1s'']) =
      Some (py_int (avg_progress (download_progress (foldl deliver (start_download queue_ab)
        [Progress ''a'' 50 ''1 B/s'' ''3s'', Progress ''b'' 100 ''1 B/s'' ''1s'']))))"
    by blast
  from aggregate_progress [OF h, where es = events_ab
      and es' = "[Finished ''b'' False ''Download failed: boom'',
         Progress ''a'' 25 ''0 B/s'' ''Unknown'',
         Finished ''a'' True ''Download completed successfully!'']"
      and engines = "[engine_ok, engine_fail]"] d i
  have b: "avg_progress (download_progress (foldl deliver (start_download queue_ab) events_ab)) =
      avg_progress (download_progress (foldl deliver (start_download queue_ab)
        [Finished ''b'' False ''Download failed: boom'', Progress ''a'' 25 ''0 B/s'' ''Unknown'',
         Finished ''a'' True ''Download completed successfully!'']))"
    by blast
  from h p a d i b show ?thesis by blast
qed

lemma single_a_fields: "video_queue single_a = [video_a]" "\<not> is_queue_mode single_a"
  by (simp_all add: single_a_def on_video_info_fetched_def init_app_def clear_video_display_def
      display_single_video_def)

text \<open>
  Claim C2 as stated does not hold: the aggregate is not confined to the interval from
  0 to 100.  A single download whose engine reports 200 bytes downloaded against an
  estimated total of 100 makes the worker emit a percentage of 200, and the aggregate
  after that signal is 200.
\<close>

theorem aggregate_above_100:
  "worker_streams (download_workers (start_download single_a)) [engine_over] =
     [[Progress ''a'' 200 ''0 B/s'' ''Unknown'',
       Finished ''a'' True ''Download completed successfully!'']]
   \<and> avg_progress (download_progress
        (foldl deliver (start_download single_a) [Progress ''a'' 200 ''0 B/s'' ''Unknown''])) = 200
   \<and> \<not> avg_progress (download_progress
        (foldl deliver (start_download single_a) [Progress ''a'' 200 ''0 B/s'' ''Unknown''])) \<le> 100"
proof -
  have s: "download_workers (start_download single_a) =
      [new_worker ''a'' (output_directory single_a) (if video_radio_checked single_a then ''video'' else ''audio'')
         (quality_combo_text single_a) (format_combo_text single_a)]"
    "download_progress (start_download single_a) = [(''a'', 0)]"
    by (simp_all add: start_download_def single_a_fields Let_def start_worker_def video_a_def)
  have w: "worker_streams (download_workers (start_download single_a)) [engine_over] =
     [[Progress ''a'' 200 ''0 B/s'' ''Unknown'',
       Finished ''a'' True ''Download completed successfully!'']]"
    unfolding s
    by (simp add: worker_streams_def run_def new_worker_def engine_over_def progress_hook_def
        tick_of_def tick_total_def tick_downloaded_def dict_get_def py_or_def truediv_def
        format_speed_def format_time_def)
  have a: "avg_progress (download_progress
        (foldl deliver (start_download single_a) [Progress ''a'' 200 ''0 B/s'' ''Unknown''])) = 200"
    by (simp add: on_download_progress_fields s avg_progress_def)
  from w a show ?thesis by simp
qed

text \<open>
  Tasks of records with the same id share one entry of \<open>download_progress\<close>, and the
  order between them matters: for a playlist that names one record twice, two merges
  of the runs of the two workers end with the aggregates 90 and 10.
\<close>

lemma aggregate_order_with_shared_id:
  "interleaving (worker_streams (download_workers (start_download queue_aa)) [engine_low, engine_high])
     [Progress ''a'' 10 ''0 B/s'' ''Unknown'', Progress ''a'' 90 ''0 B/s'' ''Unknown'',
      Finished ''a'' True ''Download completed successfully!'',
      Finished ''a'' True ''Download completed successfully!'']
   \<and> interleaving (worker_streams (download_workers (start_download queue_aa)) [engine_low, engine_high])
     [Progress ''a'' 90 ''0 B/s'' ''Unknown'', Progress ''a'' 10 ''0 B/s'' ''Unknown'',
      Finished ''a'' True ''Download completed successfully!'',
      Finished ''a'' True ''Download completed successfully!'']
   \<and> avg_progress (download_progress (foldl deliver (start_download queue_aa)
        [Progress ''a'' 10 ''0 B/s'' ''Unknown'', Progress ''a'' 90 ''0 B/s'' ''Unknown'',
         Finished ''a'' True ''Download completed successfully!'',
         Finished ''a'' True ''Download completed successfully!''])) = 90
   \<and> avg_progress (download_progress (foldl deliver (start_download queue_aa)
        [Progress ''a'' 90 ''0 B/s'' ''Unknown'', Progress ''a'' 10 ''0 B/s'' ''Unknown'',
         Finished ''a'' True ''Download completed successfully!'',
         Finished ''a'' True ''Download completed successfully!''])) = 10"
  by code_simp

end
